theory Spec2Isabelle
  imports Complex_Main
begin

section \<open>Text helpers of the refinement engine\<close>

text \<open>
  Python strings are modelled as \<^typ>\<open>string\<close>; a character stands for a code point below
  256. The white space of \<^verbatim>\<open>str.split()\<close>, \<^verbatim>\<open>str.strip()\<close> and the regular
  expression class \<^verbatim>\<open>\s\<close> is the same set of code points in that range.
\<close>

definition whitespace :: "char list" where
  "whitespace = [CHR 0x09, CHR 0x0A, CHR 0x0B, CHR 0x0C, CHR 0x0D, CHR 0x1C, CHR 0x1D,
                 CHR 0x1E, CHR 0x1F, CHR 0x20, CHR 0x85, CHR 0xA0]"

definition is_space :: "char \<Rightarrow> bool" where
  "is_space c = (c \<in> set whitespace)"

text \<open>\<^verbatim>\<open>str.lower()\<close> on code points below 256: the ASCII capitals and the Latin-1
  capitals (the multiplication sign 215 is not a letter) move up by 32.\<close>

definition lower_char :: "char \<Rightarrow> char" where
  "lower_char c =
     (let n = (of_char c :: nat)
      in if (65 \<le> n \<and> n \<le> 90) \<or> (192 \<le> n \<and> n \<le> 222 \<and> n \<noteq> 215)
         then char_of (n + 32) else c)"

definition lower :: "string \<Rightarrow> string" where
  "lower s = map lower_char s"

text \<open>\<^verbatim>\<open>k in s\<close> for strings: \<open>k\<close> occurs in \<open>s\<close> as a contiguous piece.\<close>

fun contains :: "string \<Rightarrow> string \<Rightarrow> bool" where
  "contains k [] = (k = [])"
| "contains k (c # cs) = (take (length k) (c # cs) = k \<or> contains k cs)"

text \<open>\<^verbatim>\<open>any(k in s for k in ks)\<close>.\<close>

definition any_in :: "string list \<Rightarrow> string \<Rightarrow> bool" where
  "any_in ks s = list_ex (\<lambda>k. contains k s) ks"

text \<open>\<^verbatim>\<open>s.strip()\<close>.\<close>

definition strip :: "string \<Rightarrow> string" where
  "strip s = rev (dropWhile is_space (rev (dropWhile is_space s)))"

text \<open>\<^verbatim>\<open>s.split()\<close>: the maximal runs of characters that are not white space; the
  first argument is the word being read.\<close>

fun split_from :: "string \<Rightarrow> string \<Rightarrow> string list" where
  "split_from w [] = (if w = [] then [] else [w])"
| "split_from w (c # cs) =
     (if is_space c then (if w = [] then split_from [] cs else w # split_from [] cs)
      else split_from (w @ [c]) cs)"

definition split :: "string \<Rightarrow> string list" where
  "split s = split_from [] s"

text \<open>\<^verbatim>\<open>" ".join(ws)\<close>.\<close>

fun join_space :: "string list \<Rightarrow> string" where
  "join_space [] = []"
| "join_space [w] = w"
| "join_space (w # v # ws) = w @ '' '' @ join_space (v # ws)"

text \<open>\<^verbatim>\<open>re.sub(r'\s+', ' ', s)\<close>: every run of white space becomes one blank; the flag
  says that the previous character belonged to a run.\<close>

fun collapse_from :: "bool \<Rightarrow> string \<Rightarrow> string" where
  "collapse_from inrun [] = []"
| "collapse_from inrun (c # cs) =
     (if is_space c then (if inrun then collapse_from True cs else CHR '' '' # collapse_from True cs)
      else c # collapse_from False cs)"

text \<open>
  The prefix pattern \<^verbatim>\<open>^(Re|Fwd|FW|Fw)\s*:\s*\<close> under \<^verbatim>\<open>re.IGNORECASE\<close>: one of the
  words, in the order of the alternatives, then white space, a colon, white space. The result
  is the text after the match, or \<open>None\<close> when the pattern does not match at the start.
\<close>

definition after_word :: "string \<Rightarrow> string \<Rightarrow> string option" where
  "after_word w s =
     (if lower (take (length w) s) = w
      then (case dropWhile is_space (drop (length w) s) of
              [] \<Rightarrow> None
            | c # r \<Rightarrow> if c = CHR '':'' then Some (dropWhile is_space r) else None)
      else None)"

fun first_match :: "string list \<Rightarrow> string \<Rightarrow> string option" where
  "first_match [] s = None"
| "first_match (w # ws) s = (case after_word w s of Some r \<Rightarrow> Some r | None \<Rightarrow> first_match ws s)"

definition normalise_subject :: "string \<Rightarrow> string" where
  "normalise_subject subj =
     (let s = (case first_match [''re'', ''fwd'', ''fw'', ''fw''] subj of Some r \<Rightarrow> r | None \<Rightarrow> subj)
      in collapse_from False (strip s))"

definition first_n_words :: "string \<Rightarrow> nat \<Rightarrow> string" where
  "first_n_words text n = join_space (map lower (take n (split text)))"

text \<open>
  \<^verbatim>\<open>_jaccard\<close> returns a float in the source; the quotient of the two set sizes is kept
  exact here. The source compares it with the float literal 0.6, which gives the same
  answer as the exact comparison with 3/5 for every pair of subjects with fewer than
  \<open>2 ^ 50\<close> words.
\<close>

definition jaccard :: "string \<Rightarrow> string \<Rightarrow> rat" where
  "jaccard a b =
     (let sa = set (split (lower a)); sb = set (split (lower b))
      in if sa = {} \<or> sb = {} then 0
         else of_nat (card (sa \<inter> sb)) / of_nat (card (sa \<union> sb)))"


section \<open>Classified messages\<close>

text \<open>
  One entry of \<^verbatim>\<open>pass2_classification.json\<close>. The keys \<^verbatim>\<open>msg_id\<close>,
  \<^verbatim>\<open>from_email\<close> and \<^verbatim>\<open>subject\<close> are read with \<^verbatim>\<open>msg[...]\<close> and are always there;
  \<^verbatim>\<open>category\<close> is read with \<^verbatim>\<open>msg.get\<close> and may be absent; \<^verbatim>\<open>reason\<close> is read
  with the default \<^verbatim>\<open>""\<close>. The field \<open>date\<close> holds what \<^verbatim>\<open>_parse_date\<close> returns for
  the entry's date string: the instant in microseconds since the epoch (every parsed date is
  made timezone-aware, so instants compare as integers), or \<open>None\<close> when the string is
  missing or cannot be parsed.
\<close>

record message =
  msg_id :: string
  from_email :: string
  subject :: string
  date :: "int option"
  category :: "string option"
  reason :: string

definition KEEP_CATEGORIES :: "string set" where
  "KEEP_CATEGORIES = {''urgent'', ''action_needed''}"

text \<open>\<^verbatim>\<open>msg.get("category", "")\<close>.\<close>

definition category_or_empty :: "message \<Rightarrow> string" where
  "category_or_empty m = (case category m of None \<Rightarrow> [] | Some c \<Rightarrow> c)"

text \<open>One day, the length of \<^verbatim>\<open>timedelta(hours=24)\<close>, in microseconds.\<close>

definition day_us :: int where
  "day_us = 86400000000"

text \<open>\<^verbatim>\<open>_days_old\<close>: \<^verbatim>\<open>(now - dt).days\<close> rounds towards minus infinity, as \<open>div\<close>
  on \<^typ>\<open>int\<close> does.\<close>

definition days_old :: "int option \<Rightarrow> int \<Rightarrow> int option" where
  "days_old d now = (case d of None \<Rightarrow> None | Some dt \<Rightarrow> Some ((now - dt) div day_us))"

definition is_notification_like :: "message \<Rightarrow> bool" where
  "is_notification_like msg =
     (let addr = from_email msg; subj = lower (subject msg)
      in if any_in [''noreply'', ''no-reply'', ''notify'', ''notification'', ''alerts'',
                    ''mailer-daemon''] addr then True
         else if any_in [''notification'', ''alert'', ''reminder'', ''update'', ''digest''] subj
         then True
         else False)"

definition is_receipt_like :: "message \<Rightarrow> bool" where
  "is_receipt_like msg =
     any_in [''receipt'', ''confirmation'', ''order'', ''invoice'', ''payment'', ''shipped'',
             ''delivered''] (lower (subject msg))"

definition is_newsletter_like :: "message \<Rightarrow> bool" where
  "is_newsletter_like msg =
     (let subj = lower (subject msg); addr = from_email msg; rsn = lower (reason msg)
      in if contains ''newsletter'' subj \<or> contains ''digest'' subj \<or> contains ''weekly'' subj
            \<or> contains ''monthly'' subj then True
         else if contains ''marketing'' rsn \<or> contains ''newsletter'' rsn
            \<or> contains ''promotional'' rsn then True
         else if any_in [''newsletter'', ''digest'', ''marketing'', ''campaign'', ''promo''] addr
         then True
         else False)"

definition is_security_alert :: "message \<Rightarrow> bool" where
  "is_security_alert msg =
     any_in [''security alert'', ''sign-in'', ''signin'', ''login'', ''password'',
             ''verification code'', ''2fa'', ''two-factor''] (lower (subject msg))"

definition is_financial :: "message \<Rightarrow> bool" where
  "is_financial msg =
     (let rsn = lower (reason msg); subj = lower (subject msg)
      in if any_in [''financial'', ''tax'', ''hmrc'', ''bank'', ''accountant'', ''invoice''] rsn
         then True
         else if any_in [''tax'', ''hmrc'', ''p60'', ''p45'', ''self assessment'', ''statement'',
                         ''bank''] subj then True
         else False)"

section \<open>Time-decay buckets\<close>

record msg_ref =
  ref_msg_id :: string
  ref_from_email :: string
  ref_subject :: string
  ref_date :: "int option"
  ref_days_old :: int

record time_decay =
  notifications_over_7d :: "msg_ref list"
  receipts_over_90d :: "msg_ref list"
  security_over_30d :: "msg_ref list"
  newsletters_over_14d :: "msg_ref list"
  older_than_12mo :: "msg_ref list"

definition empty_time_decay :: time_decay where
  "empty_time_decay =
     \<lparr>notifications_over_7d = [], receipts_over_90d = [], security_over_30d = [],
      newsletters_over_14d = [], older_than_12mo = []\<rparr>"

definition make_ref :: "message \<Rightarrow> int \<Rightarrow> msg_ref" where
  "make_ref msg days =
     \<lparr>ref_msg_id = msg_id msg, ref_from_email = from_email msg, ref_subject = subject msg,
      ref_date = date msg, ref_days_old = days\<rparr>"

text \<open>The body of the loop over the messages that are not classified \<^verbatim>\<open>archive\<close>; each
  \<^verbatim>\<open>continue\<close> of the source returns the buckets unchanged.\<close>

definition decay_step :: "int \<Rightarrow> message \<Rightarrow> time_decay \<Rightarrow> time_decay" where
  "decay_step now msg td =
     (if category_or_empty msg \<in> KEEP_CATEGORIES then td
      else case days_old (date msg) now of
        None \<Rightarrow> td
      | Some days \<Rightarrow>
          if is_financial msg then td
          else
            let r = make_ref msg days;
                td1 =
                  (if is_notification_like msg \<and> days > 7
                   then td\<lparr>notifications_over_7d := notifications_over_7d td @ [r]\<rparr>
                   else if is_receipt_like msg \<and> days > 90 \<and> \<not> is_financial msg
                   then td\<lparr>receipts_over_90d := receipts_over_90d td @ [r]\<rparr>
                   else if is_security_alert msg \<and> days > 30
                   then td\<lparr>security_over_30d := security_over_30d td @ [r]\<rparr>
                   else if is_newsletter_like msg \<and> days > 14
                   then td\<lparr>newsletters_over_14d := newsletters_over_14d td @ [r]\<rparr>
                   else td)
            in if days > 365 then td1\<lparr>older_than_12mo := older_than_12mo td1 @ [r]\<rparr> else td1)"

definition time_decay_candidates :: "int \<Rightarrow> message list \<Rightarrow> time_decay" where
  "time_decay_candidates now remaining = fold (decay_step now) remaining empty_time_decay"

section \<open>Burst deduplication\<close>

text \<open>\<^verbatim>\<open>sender_groups\<close> is a dictionary of lists that keeps the order in which the
  senders first appear; \<open>group_add\<close> is
  \<^verbatim>\<open>sender_groups[msg["from_email"]].append(msg)\<close>.\<close>

fun group_add :: "message \<Rightarrow> (string \<times> message list) list \<Rightarrow> (string \<times> message list) list" where
  "group_add m [] = [(from_email m, [m])]"
| "group_add m ((s, ms) # g) =
     (if s = from_email m then (s, ms @ [m]) # g else (s, ms) # group_add m g)"

definition sender_groups :: "message list \<Rightarrow> (string \<times> message list) list" where
  "sender_groups remaining = fold group_add remaining []"

record dedup_group =
  group_key :: string
  sender :: string
  pattern :: string
  total_in_burst :: nat
  keep_msg_id :: string
  archive_msg_ids :: "string list"

definition similar :: "message \<Rightarrow> message \<Rightarrow> bool" where
  "similar mi mj =
     (let subj_i = normalise_subject (subject mi); subj_j = normalise_subject (subject mj)
      in first_n_words subj_i 4 = first_n_words subj_j 4 \<or> jaccard subj_i subj_j \<ge> 6 / 10)"

text \<open>The inner loop over \<open>j\<close>: the later messages that join the burst that starts at \<open>x\<close>.
  The loop stops (\<^verbatim>\<open>break\<close>) at the first message more than 24 hours after \<open>x\<close>.\<close>

fun burst_from :: "message \<times> int \<Rightarrow> (message \<times> int) list \<Rightarrow> (message \<times> int) list" where
  "burst_from x [] = []"
| "burst_from x (y # ys) =
     (if snd y - snd x \<le> day_us
      then (if similar (fst x) (fst y) then y # burst_from x ys else burst_from x ys)
      else [])"

text \<open>The group the source builds from a burst of at least five members: the burst is
  sorted by date, the newest member is kept and the others are listed for archive. The key
  and the pattern are taken from the subject as it is (not normalised) of the oldest member.\<close>

definition make_group :: "string \<Rightarrow> (message \<times> int) list \<Rightarrow> dedup_group" where
  "make_group sender_email found =
     (let burst = sort_key snd found;
          keep = last burst;
          archive = butlast burst
      in \<lparr>group_key = sender_email @ ''|'' @ first_n_words (subject (fst (hd burst))) 4,
          sender = sender_email,
          pattern = first_n_words (subject (fst (hd burst))) 4,
          total_in_burst = length burst,
          keep_msg_id = msg_id (fst keep),
          archive_msg_ids = map (\<lambda>a. msg_id (fst a)) archive\<rparr>)"

text \<open>What the source does with one finished \<open>burst\<close>: nothing below five members;
  otherwise the group is appended unless its key is already there.\<close>

definition record_burst ::
  "string \<Rightarrow> (message \<times> int) list \<Rightarrow> dedup_group list \<Rightarrow> dedup_group list" where
  "record_burst sender_email found dedup_groups =
     (if length found \<ge> 5
      then
        let g = make_group sender_email found
        in if group_key g \<notin> group_key ` set dedup_groups then dedup_groups @ [g]
           else dedup_groups
      else dedup_groups)"

text \<open>The outer loop over \<open>i\<close>: one window for every start.\<close>

fun scan_windows ::
  "string \<Rightarrow> (message \<times> int) list \<Rightarrow> dedup_group list \<Rightarrow> dedup_group list" where
  "scan_windows sender_email [] dedup_groups = dedup_groups"
| "scan_windows sender_email (x # xs) dedup_groups =
     scan_windows sender_email xs (record_burst sender_email (x # burst_from x xs) dedup_groups)"

text \<open>The messages of one sender with a parsed date, paired with it.\<close>

fun with_dates :: "message list \<Rightarrow> (message \<times> int) list" where
  "with_dates [] = []"
| "with_dates (m # ms) = (case date m of None \<Rightarrow> with_dates ms | Some d \<Rightarrow> (m, d) # with_dates ms)"

definition dedup_sender ::
  "string \<times> message list \<Rightarrow> dedup_group list \<Rightarrow> dedup_group list" where
  "dedup_sender entry dedup_groups =
     (case entry of (sender_email, msgs) \<Rightarrow>
        if length msgs < 5 then dedup_groups
        else scan_windows sender_email (sort_key snd (with_dates msgs)) dedup_groups)"

definition dedup_candidates :: "message list \<Rightarrow> dedup_group list" where
  "dedup_candidates remaining = fold dedup_sender (sender_groups remaining) []"

section \<open>The analysis report\<close>

record analysis =
  details :: time_decay
  groups :: "dedup_group list"
  flagged_for_review_12mo :: nat
  archive_ids :: "string set"
  keep_ids :: "string set"

text \<open>\<^verbatim>\<open>td_ids\<close>: the loop over the buckets skips \<^verbatim>\<open>older_than_12mo\<close>.\<close>

definition td_ids_of :: "time_decay \<Rightarrow> string set" where
  "td_ids_of td =
     fold (\<lambda>bucket ids. fold (\<lambda>m ids'. insert (ref_msg_id m) ids') bucket ids)
       [notifications_over_7d td, receipts_over_90d td, security_over_30d td,
        newsletters_over_14d td] {}"

definition dedup_ids_of :: "dedup_group list \<Rightarrow> string set" where
  "dedup_ids_of gs = fold (\<lambda>g ids. ids \<union> set (archive_msg_ids g)) gs {}"

text \<open>\<^verbatim>\<open>phase2_analyse\<close>, from the loaded message list and the clock.\<close>

definition phase2_analyse :: "int \<Rightarrow> message list \<Rightarrow> analysis" where
  "phase2_analyse now messages =
     (let already_archive = filter (\<lambda>m. category m = Some ''archive'') messages;
          remaining = filter (\<lambda>m. category m \<noteq> Some ''archive'') messages;
          td = time_decay_candidates now remaining;
          dedup_groups = dedup_candidates remaining;
          from_classification = fold (\<lambda>m ids. insert (msg_id m) ids) already_archive {};
          targeted = (from_classification \<union> td_ids_of td) \<union> dedup_ids_of dedup_groups;
          all_ids = msg_id ` set messages
      in \<lparr>details = td, groups = dedup_groups,
          flagged_for_review_12mo = length (older_than_12mo td),
          archive_ids = targeted, keep_ids = all_ids - targeted\<rparr>)"

section \<open>The refinement engine as the specification words it\<close>

text \<open>
  The definitions of this section follow the wording of the specification; the theorems
  compare them with the loops of the source above.

  The age of a message that passes the three guards of the time-decay stage: its category is
  not one that never expires, it is not a financial record, and its date was parsed.
\<close>

definition spec_decay_age :: "int \<Rightarrow> message \<Rightarrow> int option" where
  "spec_decay_age now m =
     (if category_or_empty m \<in> KEEP_CATEGORIES then None
      else if is_financial m then None
      else days_old (date m) now)"

text \<open>A time-decay hit: notification-like and older than 7 days, receipt-like and older
  than 90, security-alert-like and older than 30, or newsletter-like and older than 14.\<close>

definition spec_decay_hit :: "int \<Rightarrow> message \<Rightarrow> bool" where
  "spec_decay_hit now m =
     (case spec_decay_age now m of
        None \<Rightarrow> False
      | Some d \<Rightarrow> (is_notification_like m \<and> d > 7) \<or> (is_receipt_like m \<and> d > 90)
                 \<or> (is_security_alert m \<and> d > 30) \<or> (is_newsletter_like m \<and> d > 14))"

text \<open>The entries of the four buckets that are archived automatically.\<close>

definition decay_refs :: "time_decay \<Rightarrow> msg_ref set" where
  "decay_refs td =
     set (notifications_over_7d td) \<union> set (receipts_over_90d td) \<union> set (security_over_30d td)
       \<union> set (newsletters_over_14d td)"

text \<open>The review bucket: anything that passes the guards and is older than 365 days.\<close>

definition spec_review_hit :: "int \<Rightarrow> message \<Rightarrow> bool" where
  "spec_review_hit now m = (case spec_decay_age now m of None \<Rightarrow> False | Some d \<Rightarrow> d > 365)"

text \<open>The run that starts at each message of a date-sorted list: the start and every later
  message within 24 hours of the start whose subject is similar to the start's.\<close>

fun spec_runs :: "(message \<times> int) list \<Rightarrow> (message \<times> int) list list" where
  "spec_runs [] = []"
| "spec_runs (x # xs) =
     (x # filter (\<lambda>y. snd y - snd x \<le> day_us \<and> similar (fst x) (fst y)) xs) # spec_runs xs"

text \<open>The duplicate bursts of the messages that are not classified \<^verbatim>\<open>archive\<close>: for
  every sender with at least five messages, the runs of at least five members, each with
  its sender.\<close>

definition spec_bursts :: "message list \<Rightarrow> (string \<times> (message \<times> int) list) list" where
  "spec_bursts remaining =
     concat (map (\<lambda>(s, ms). if length ms < 5 then []
                              else map (Pair s) (filter (\<lambda>b. 5 \<le> length b)
                                     (spec_runs (sort_key snd (with_dates ms)))))
               (sender_groups remaining))"

definition spec_key :: "string \<times> (message \<times> int) list \<Rightarrow> string" where
  "spec_key sb = fst sb @ ''|'' @ first_n_words (subject (fst (hd (snd sb)))) 4"

section \<open>Checkpoint files\<close>

text \<open>
  The files of the output directory: a path has a content or is absent. The checkpoint
  itself is JSON text; \<^verbatim>\<open>json.dump\<close> writes it to the open file piece by piece, so the
  text to be saved is given as the list of its pieces.
\<close>

type_synonym files = "string \<Rightarrow> string option"

text \<open>\<^verbatim>\<open>Path.name\<close>, \<^verbatim>\<open>Path.suffix\<close> and \<^verbatim>\<open>Path.with_suffix\<close> for a path written with
  \<^verbatim>\<open>/\<close>: the suffix starts at the last dot of the name, unless that dot is the first or the
  last character of the name; \<^verbatim>\<open>with_suffix\<close> raises \<^verbatim>\<open>ValueError\<close> on an empty name.\<close>

definition path_name :: "string \<Rightarrow> string" where
  "path_name p = rev (takeWhile (\<lambda>c. c \<noteq> CHR ''/'') (rev p))"

definition path_suffix :: "string \<Rightarrow> string" where
  "path_suffix p =
     (let name = path_name p; ext = rev (takeWhile (\<lambda>c. c \<noteq> CHR ''.'') (rev name))
      in if CHR ''.'' \<in> set name \<and> ext \<noteq> [] \<and> Suc (length ext) < length name
         then CHR ''.'' # ext else [])"

definition with_suffix :: "string \<Rightarrow> string \<Rightarrow> string option" where
  "with_suffix p sfx =
     (if path_name p = [] then None
      else Some (take (length p - length (path_suffix p)) p @ sfx))"

text \<open>The states of the temporary file while the pieces are written: after each
  \<^verbatim>\<open>write\<close> the file holds what was written so far.\<close>

fun writes :: "files \<Rightarrow> string \<Rightarrow> string \<Rightarrow> string list \<Rightarrow> files list" where
  "writes fs tmp sofar [] = []"
| "writes fs tmp sofar (c # cs) = fs(tmp \<mapsto> sofar @ c) # writes fs tmp (sofar @ c) cs"

text \<open>
  \<^verbatim>\<open>save_checkpoint\<close> as the list of the states the files go through, one after every step:
  \<^verbatim>\<open>open(tmp, "w")\<close> creates or empties the temporary file, the pieces are written, and
  \<^verbatim>\<open>tmp.rename(path)\<close> replaces the target in one step (the rename of POSIX). A crash
  during the save leaves the files in the state before the save or in one of these states.
  When \<^verbatim>\<open>with_suffix\<close> raises, no file is touched.
\<close>

definition save_checkpoint_states :: "files \<Rightarrow> string \<Rightarrow> string list \<Rightarrow> files list" where
  "save_checkpoint_states fs path pieces =
     (case with_suffix path ''.tmp'' of
        None \<Rightarrow> []
      | Some tmp \<Rightarrow>
          let opened = fs(tmp \<mapsto> []);
              ws = writes fs tmp [] pieces;
              written = last (opened # ws)
          in opened # ws @ [(written(tmp := None))(path := written tmp)])"

definition save_checkpoint :: "files \<Rightarrow> string \<Rightarrow> string list \<Rightarrow> files" where
  "save_checkpoint fs path pieces = last (fs # save_checkpoint_states fs path pieces)"

text \<open>\<^verbatim>\<open>load_checkpoint\<close>: \<open>None\<close> when the file is absent or \<^verbatim>\<open>json.load\<close> fails;
  \<open>parse\<close> stands for \<^verbatim>\<open>json.load\<close> and gives \<open>None\<close> for text that is not JSON.\<close>

definition load_checkpoint :: "(string \<Rightarrow> 'a option) \<Rightarrow> files \<Rightarrow> string \<Rightarrow> 'a option" where
  "load_checkpoint parse fs path = (case fs path of None \<Rightarrow> None | Some text \<Rightarrow> parse text)"

section \<open>Responses of the mail server\<close>

text \<open>
  One element of the data \<^verbatim>\<open>imaplib\<close> returns for a fetch: a pair of the response line
  and the literal, or something that is not a pair (the closing parenthesis, \<^verbatim>\<open>None\<close>).
  The literal is given parsed: \<open>None\<close> when \<^verbatim>\<open>email.message_from_bytes\<close> raises.
\<close>

datatype 'a fetch_item = NotTuple | Tuple string "'a option"

text \<open>The header fields the pipeline reads, decoded by \<^verbatim>\<open>decode_header_value\<close>:
  \<open>hdr_from\<close> is the decoded \<^verbatim>\<open>From\<close> (empty when the header is absent),
  \<open>hdr_subject\<close> the decoded \<^verbatim>\<open>Subject\<close> when there is one, and \<open>hdr_date\<close> the date
  as the record stores it.\<close>

record header =
  hdr_from :: string
  hdr_subject :: "string option"
  hdr_date :: string

text \<open>\<^verbatim>\<open>s.split(sep)[0]\<close>: the text before the first \<open>sep\<close>; and the text after the first
  \<open>sep\<close>, so that \<^verbatim>\<open>s.split(sep)[1]\<close> is \<open>before sep (after sep s)\<close> when \<open>sep\<close> occurs.\<close>

fun before :: "string \<Rightarrow> string \<Rightarrow> string" where
  "before sep [] = []"
| "before sep (c # cs) = (if take (length sep) (c # cs) = sep then [] else c # before sep cs)"

fun after :: "string \<Rightarrow> string \<Rightarrow> string" where
  "after sep [] = []"
| "after sep (c # cs) =
     (if take (length sep) (c # cs) = sep then drop (length sep) (c # cs) else after sep cs)"

text \<open>\<^verbatim>\<open>s.strip(c)\<close> for one character.\<close>

definition strip_char :: "char \<Rightarrow> string \<Rightarrow> string" where
  "strip_char c s = rev (dropWhile (\<lambda>x. x = c) (rev (dropWhile (\<lambda>x. x = c) s)))"

definition get_sender_email :: "string \<Rightarrow> string" where
  "get_sender_email from_header =
     (if contains ''<'' from_header \<and> contains ''>'' from_header
      then lower (before ''>'' (before ''<'' (after ''<'' from_header)))
      else strip (lower from_header))"

definition get_sender_name :: "string \<Rightarrow> string" where
  "get_sender_name from_header =
     (if contains ''<'' from_header
      then let name = strip_char (CHR 0x27) (strip_char (CHR 0x22) (strip (before ''<'' from_header)))
           in if name \<noteq> [] then name else get_sender_email from_header
      else strip from_header)"

section \<open>Pass 1: the metadata fetch\<close>

text \<open>A record of \<^verbatim>\<open>fetch_metadata\<close>; its keys are \<^verbatim>\<open>msg_id\<close>, \<^verbatim>\<open>from_email\<close>,
  \<^verbatim>\<open>from_name\<close>, \<^verbatim>\<open>subject\<close>, \<^verbatim>\<open>date\<close> and \<^verbatim>\<open>is_unread\<close> (the fields carry a prefix
  because the classified messages above use the same keys).\<close>

record fetched =
  fm_msg_id :: string
  fm_from_email :: string
  fm_from_name :: string
  fm_subject :: string
  fm_date :: string
  fm_is_unread :: bool

text \<open>The body of the loop over the items of one response: \<open>None\<close> where the source
  says \<^verbatim>\<open>continue\<close>. The id is the first word of the response line, the sequence number.\<close>

definition parse_item :: "header fetch_item \<Rightarrow> fetched option" where
  "parse_item item =
     (case item of
        NotTuple \<Rightarrow> None
      | Tuple seq_info raw_header \<Rightarrow>
          (case raw_header of
             None \<Rightarrow> None
           | Some msg \<Rightarrow>
               Some \<lparr>fm_msg_id = before '' '' seq_info,
                     fm_from_email = get_sender_email (hdr_from msg),
                     fm_from_name = get_sender_name (hdr_from msg),
                     fm_subject = (case hdr_subject msg of None \<Rightarrow> ''(no subject)'' | Some s \<Rightarrow> s),
                     fm_date = hdr_date msg,
                     fm_is_unread = (\<not> contains (CHR 0x5C # ''Seen'') seq_info)\<rparr>))"

fun parse_items :: "header fetch_item list \<Rightarrow> fetched list" where
  "parse_items [] = []"
| "parse_items (item # items) =
     (case parse_item item of None \<Rightarrow> parse_items items | Some m \<Rightarrow> m # parse_items items)"

text \<open>\<^verbatim>\<open>for i in range(0, len(xs), n): xs[i:i + n]\<close>. The batch sizes of the source are
  the constants 500, 50 and 200; for \<open>n = 0\<close>, where \<^verbatim>\<open>range\<close> raises, there is no batch.\<close>

function batches :: "nat \<Rightarrow> 'a list \<Rightarrow> 'a list list" where
  "batches n xs = (if n = 0 \<or> xs = [] then [] else take n xs # batches n (drop n xs))"
  by pat_completeness auto
termination
  by (relation "measure (\<lambda>(n, xs). length xs)") auto

declare batches.simps [simp del]

text \<open>The mailbox during pass 1: the sequence numbers \<^verbatim>\<open>SEARCH ALL\<close> returns, and the
  response to a \<^verbatim>\<open>FETCH\<close> of a batch of sequence numbers.\<close>

record inbox =
  search_all :: "string list"
  fetch_headers :: "string list \<Rightarrow> header fetch_item list"

text \<open>The loop over the batches: the accumulator after every batch, which is what
  \<^verbatim>\<open>save_checkpoint\<close> writes after that batch.\<close>

fun metadata_loop ::
  "(string list \<Rightarrow> header fetch_item list) \<Rightarrow> fetched list \<Rightarrow> string list list \<Rightarrow> fetched list list" where
  "metadata_loop fetch messages [] = []"
| "metadata_loop fetch messages (batch # rest) =
     (let messages' = messages @ parse_items (fetch batch)
      in messages' # metadata_loop fetch messages' rest)"

text \<open>The identifiers a run asks the server for, given the checkpoint it starts from
  (\<open>None\<close>: no checkpoint file, or an unreadable one).\<close>

definition remaining_ids :: "inbox \<Rightarrow> fetched list option \<Rightarrow> string list" where
  "remaining_ids mail cp =
     (let messages = (case cp of None \<Rightarrow> [] | Some ms \<Rightarrow> ms);
          fetched_ids = fm_msg_id ` set messages
      in filter (\<lambda>mid. mid \<notin> fetched_ids) (search_all mail))"

text \<open>\<^verbatim>\<open>fetch_metadata\<close> with a checkpoint path: the checkpoints it writes, in order, for a
  batch size \<open>n\<close> (500 in the source), and the list it returns.\<close>

definition metadata_checkpoints :: "nat \<Rightarrow> inbox \<Rightarrow> fetched list option \<Rightarrow> fetched list list" where
  "metadata_checkpoints n mail cp =
     (if search_all mail = [] then []
      else metadata_loop (fetch_headers mail) (case cp of None \<Rightarrow> [] | Some ms \<Rightarrow> ms)
             (batches n (remaining_ids mail cp)))"

definition fetch_metadata_sized :: "nat \<Rightarrow> inbox \<Rightarrow> fetched list option \<Rightarrow> fetched list" where
  "fetch_metadata_sized n mail cp =
     (if search_all mail = [] then []
      else last ((case cp of None \<Rightarrow> [] | Some ms \<Rightarrow> ms) # metadata_checkpoints n mail cp))"

definition fetch_metadata :: "inbox \<Rightarrow> fetched list option \<Rightarrow> fetched list" where
  "fetch_metadata mail cp = fetch_metadata_sized 500 mail cp"


section \<open>Pass 2: the body fetch\<close>









section \<open>UID resolution and the archiver\<close>

text \<open>The commands the archiver sends: \<^verbatim>\<open>select\<close> of a mailbox (read-only or not),
  \<^verbatim>\<open>search ALL\<close> in the selected mailbox, \<^verbatim>\<open>uid search ALL\<close>, \<^verbatim>\<open>uid fetch\<close>,
  \<^verbatim>\<open>uid copy\<close> to a folder, \<^verbatim>\<open>uid store +FLAGS \Deleted\<close>, \<^verbatim>\<open>expunge\<close>, \<^verbatim>\<open>list\<close>
  and \<^verbatim>\<open>create\<close>.\<close>

datatype command =
    Select string bool
  | Search
  | UidSearch
  | UidFetch "string list"
  | UidCopy "string list" string
  | UidStore "string list"
  | Expunge
  | ListFolders
  | Create string

text \<open>The commands that change the mailbox or the folders.\<close>

fun mutates :: "command \<Rightarrow> bool" where
  "mutates (UidCopy uids folder) = True"
| "mutates (UidStore uids) = True"
| "mutates Expunge = True"
| "mutates (Create name) = True"
| "mutates (Select mailbox readonly) = (\<not> readonly)"
| "mutates c = False"

text \<open>
  What the server answers: the UIDs of the inbox, the response to a \<^verbatim>\<open>uid fetch\<close> of a
  batch, the number of messages in \<^verbatim>\<open>[Gmail]/All Mail\<close> before the archive and after it
  (\<open>None\<close>: the selection or the search raises), whether a copy and a store of a batch
  answer \<^verbatim>\<open>OK\<close>, the lines of \<^verbatim>\<open>list\<close>, and whether \<^verbatim>\<open>create\<close> answers \<^verbatim>\<open>OK\<close>.
\<close>

record mail_server =
  uid_search :: "string list"
  uid_fetch :: "string list \<Rightarrow> header fetch_item list"
  all_mail_before :: nat
  all_mail_after :: "nat option"
  uid_copy :: "string list \<Rightarrow> string \<Rightarrow> bool"
  uid_store :: "string list \<Rightarrow> bool"
  list_folders :: "string list"
  create_ok :: "string \<Rightarrow> bool"

text \<open>\<^verbatim>\<open>resp_line.split("UID ")[1].split(" ")[0].split(")")[0]\<close>, when \<^verbatim>\<open>"UID "\<close> occurs.\<close>

definition uid_of :: "string \<Rightarrow> string option" where
  "uid_of resp_line =
     (if contains ''UID '' resp_line
      then Some (before '')'' (before '' '' (before ''UID '' (after ''UID '' resp_line))))
      else None)"

text \<open>The body of the scan loop for one item, given the test on the parsed header:
  the UID to append, or \<open>None\<close> where the source continues or does not match.\<close>

definition scan_item :: "(header \<Rightarrow> bool) \<Rightarrow> header fetch_item \<Rightarrow> string option" where
  "scan_item matches item =
     (case item of
        NotTuple \<Rightarrow> None
      | Tuple resp_line raw_header \<Rightarrow>
          (case uid_of resp_line of
             None \<Rightarrow> None
           | Some uid_val \<Rightarrow>
               if uid_val = [] then None
               else (case raw_header of
                       None \<Rightarrow> None
                     | Some msg \<Rightarrow> if matches msg then Some uid_val else None)))"

fun scan_items :: "(header \<Rightarrow> bool) \<Rightarrow> header fetch_item list \<Rightarrow> string list" where
  "scan_items matches [] = []"
| "scan_items matches (item # items) =
     (case scan_item matches item of
        None \<Rightarrow> scan_items matches items
      | Some uid_val \<Rightarrow> uid_val # scan_items matches items)"

text \<open>The scan both resolutions share: the inbox is selected read-only, its UIDs are
  listed and fetched in batches of 500; the result is the matched UIDs and the commands
  sent.\<close>

definition scan_inbox :: "mail_server \<Rightarrow> (header \<Rightarrow> bool) \<Rightarrow> string list \<times> command list" where
  "scan_inbox mail matches =
     (let all_uids = uid_search mail
      in if all_uids = [] then ([], [Select ''INBOX'' True, UidSearch])
         else (concat (map (\<lambda>batch. scan_items matches (uid_fetch mail batch)) (batches 500 all_uids)),
               [Select ''INBOX'' True, UidSearch] @ map UidFetch (batches 500 all_uids)))"

definition scan_inbox_uids_by_sender :: "mail_server \<Rightarrow> string set \<Rightarrow> string list \<times> command list" where
  "scan_inbox_uids_by_sender mail target_senders =
     scan_inbox mail (\<lambda>msg. get_sender_email (hdr_from msg) \<in> target_senders)"

text \<open>\<^verbatim>\<open>scan_inbox_uids_for_phase2\<close>: the targets are message ids of the analysis; they are
  looked up in the stored message list (a later entry with the same id replaces an earlier
  one) and matched by sender and normalised subject.\<close>

definition target_keys :: "string set \<Rightarrow> message list \<Rightarrow> (string \<times> string) set" where
  "target_keys target_msg_ids all_msgs =
     {(lower (from_email m), lower (normalise_subject (subject m))) | m mid.
        mid \<in> target_msg_ids \<and> map_of (rev (map (\<lambda>m. (msg_id m, m)) all_msgs)) mid = Some m}"

definition scan_inbox_uids_for_phase2 ::
  "mail_server \<Rightarrow> string set \<Rightarrow> message list \<Rightarrow> string list \<times> command list" where
  "scan_inbox_uids_for_phase2 mail target_msg_ids all_msgs =
     scan_inbox mail
       (\<lambda>msg. (lower (get_sender_email (hdr_from msg)),
               lower (normalise_subject (case hdr_subject msg of None \<Rightarrow> [] | Some s \<Rightarrow> s)))
              \<in> target_keys target_msg_ids all_msgs)"

text \<open>An account is given by its \<^verbatim>\<open>imap-server\<close> entry, if it has one.\<close>

definition IMAP_SERVER :: string where
  "IMAP_SERVER = ''imap.gmail.com''"

definition is_gmail :: "string option \<Rightarrow> bool" where
  "is_gmail account =
     (let server = (case account of None \<Rightarrow> IMAP_SERVER | Some s \<Rightarrow> s)
      in contains ''gmail'' (lower server) \<or> contains ''google'' (lower server))"

text \<open>\<^verbatim>\<open>verify_archive_safety\<close>: the answer and the commands sent. When the selection or
  the search raises, the inbox is selected again and the answer is \<open>False\<close>.\<close>

definition verify_archive_safety :: "mail_server \<Rightarrow> nat \<Rightarrow> string option \<Rightarrow> bool \<times> command list" where
  "verify_archive_safety mail pre_allmail_count account =
     (if \<not> is_gmail account then (True, [])
      else case all_mail_after mail of
             Some post_count \<Rightarrow>
               (post_count \<ge> pre_allmail_count,
                [Select ''[Gmail]/All Mail'' True, Search, Select ''INBOX'' False])
           | None \<Rightarrow> (False, [Select ''[Gmail]/All Mail'' True, Select ''INBOX'' False]))"

text \<open>\<^verbatim>\<open>s.rstrip()\<close> and \<^verbatim>\<open>s.endswith(t)\<close>.\<close>

definition rstrip :: "string \<Rightarrow> string" where
  "rstrip s = rev (dropWhile is_space (rev s))"

definition endswith :: "string \<Rightarrow> string \<Rightarrow> bool" where
  "endswith s t = (length t \<le> length s \<and> drop (length s - length t) s = t)"

definition ensure_archive_folder :: "mail_server \<Rightarrow> string option \<times> command list" where
  "ensure_archive_folder mail =
     (if list_ex (\<lambda>decoded. contains (CHR 0x22 # ''Archive'' @ [CHR 0x22]) decoded
                     \<or> endswith (rstrip decoded) '' Archive''
                     \<or> endswith (rstrip decoded) ''/Archive'') (list_folders mail)
      then (Some ''Archive'', [ListFolders])
      else if create_ok mail ''Archive'' then (Some ''Archive'', [ListFolders, Create ''Archive''])
      else if create_ok mail ''INBOX.Archive''
      then (Some ''INBOX.Archive'', [ListFolders, Create ''Archive'', Create ''INBOX.Archive''])
      else (None, [ListFolders, Create ''Archive'', Create ''INBOX.Archive'']))"

text \<open>The loop that flags the batches: the number of messages flagged so far and the
  commands sent. A batch whose copy or store does not answer \<^verbatim>\<open>OK\<close> is skipped.\<close>

fun flag_batches ::
  "mail_server \<Rightarrow> bool \<Rightarrow> string \<Rightarrow> nat \<Rightarrow> string list list \<Rightarrow> nat \<times> command list" where
  "flag_batches mail gmail archive_folder archived [] = (archived, [])"
| "flag_batches mail gmail archive_folder archived (batch # rest) =
     (if \<not> gmail \<and> \<not> uid_copy mail batch archive_folder
      then (let (n, cmds) = flag_batches mail gmail archive_folder archived rest
            in (n, UidCopy batch archive_folder # cmds))
      else
        let copied = (if gmail then [] else [UidCopy batch archive_folder])
        in if \<not> uid_store mail batch
           then (let (n, cmds) = flag_batches mail gmail archive_folder archived rest
                 in (n, copied @ UidStore batch # cmds))
           else (let (n, cmds) = flag_batches mail gmail archive_folder (archived + length batch) rest
                 in (n, copied @ UidStore batch # cmds)))"

text \<open>What the archiver prints, as far as the claims speak of it, and what it returns.\<close>

datatype notice =
    NoMessages
  | DryRun nat
  | FolderError
  | Warning
  | SafetyPassed
  | Archived nat

record outcome =
  returned :: nat
  notices :: "notice list"
  issued :: "command list"

text \<open>The part both archivers share once the UIDs are matched: nothing to do, the dry
  run, the snapshot of the All Mail count (Gmail) or the archive folder (other servers),
  the flagging in batches, one expunge, and the safety check. \<open>account\<close> is \<open>None\<close> when
  the caller gives no account.\<close>

definition archive_matched ::
  "mail_server \<Rightarrow> string list \<times> command list \<Rightarrow> bool \<Rightarrow> nat \<Rightarrow> string option option \<Rightarrow> outcome" where
  "archive_matched mail scan dry_run batch_size account =
     (let gmail = (case account of None \<Rightarrow> True | Some a \<Rightarrow> is_gmail a);
          matched_uids = fst scan;
          scanned = snd scan
      in if matched_uids = [] then \<lparr>returned = 0, notices = [NoMessages], issued = scanned\<rparr>
         else if dry_run
         then \<lparr>returned = 0, notices = [DryRun (length matched_uids)], issued = scanned\<rparr>
         else
           let (pre_allmail_count, archive_folder, prepared) =
                 (if gmail
                  then (all_mail_before mail, Some [], [Select ''[Gmail]/All Mail'' True, Search])
                  else (0, fst (ensure_archive_folder mail), snd (ensure_archive_folder mail)))
           in case archive_folder of
                None \<Rightarrow> \<lparr>returned = 0, notices = [FolderError], issued = scanned @ prepared\<rparr>
              | Some folder \<Rightarrow>
                  let (archived, flagged) =
                        flag_batches mail gmail folder 0 (batches batch_size matched_uids);
                      (safe, checked) =
                        verify_archive_safety mail pre_allmail_count
                          (case account of None \<Rightarrow> None | Some a \<Rightarrow> a)
                  in \<lparr>returned = archived,
                      notices = [if safe then SafetyPassed else Warning, Archived archived],
                      issued = scanned @ prepared @ [Select ''INBOX'' False] @ flagged
                                 @ [Expunge] @ checked\<rparr>)"

text \<open>\<^verbatim>\<open>archive_messages\<close> (batch size 200 by default).\<close>

definition archive_messages ::
  "mail_server \<Rightarrow> string list \<Rightarrow> bool \<Rightarrow> nat \<Rightarrow> string option option \<Rightarrow> outcome" where
  "archive_messages mail archive_senders dry_run batch_size account =
     archive_matched mail (scan_inbox_uids_by_sender mail (set (map lower archive_senders)))
       dry_run batch_size account"

text \<open>\<^verbatim>\<open>phase2_archive\<close>, from the archive ids of the analysis and the stored messages.\<close>

definition phase2_archive ::
  "mail_server \<Rightarrow> string set \<Rightarrow> message list \<Rightarrow> bool \<Rightarrow> string option option \<Rightarrow> outcome" where
  "phase2_archive mail targets all_msgs dry_run account =
     (if targets = {} then \<lparr>returned = 0, notices = [NoMessages], issued = []\<rparr>
      else archive_matched mail (scan_inbox_uids_for_phase2 mail targets all_msgs)
             dry_run 200 account)"

section \<open>Example inputs\<close>

text \<open>A message with a time given in minutes, and the clock 400 days after time 0.\<close>

definition mk :: "string \<Rightarrow> string \<Rightarrow> string \<Rightarrow> int \<Rightarrow> string \<Rightarrow> message" where
  "mk i s subj mins c =
     \<lparr>msg_id = i, from_email = s, subject = subj, date = Some (mins * 60000000),
      category = Some c, reason = []\<rparr>"

definition now_400d :: int where
  "now_400d = 576000 * 60000000"

text \<open>The clock 10 days, 2000 minutes and 200 minutes after time 0.\<close>

definition now_10d :: int where
  "now_10d = 14400 * 60000000"

definition now_2000m :: int where
  "now_2000m = 2000 * 60000000"

definition now_200m :: int where
  "now_200m = 200 * 60000000"

text \<open>An old personal message, a message classified \<^verbatim>\<open>archive\<close> and a notification
  that is 52 days old.\<close>

definition ex_review :: "message list" where
  "ex_review =
     [mk ''10'' ''bob@example.org'' ''Holiday photos'' 0 ''keep'',
      mk ''11'' ''shop@example.org'' ''Sale'' 575000 ''archive'',
      mk ''12'' ''noreply@example.org'' ''Build finished'' 500000 ''reference'']"

text \<open>Two messages that are 400 days old: one urgent, one classified \<^verbatim>\<open>archive\<close>.\<close>

definition ex_not_reviewed :: "message list" where
  "ex_not_reviewed =
     [mk ''1'' ''amy@example.org'' ''Contract'' 0 ''urgent'',
      mk ''2'' ''cat@example.org'' ''Old thread'' 0 ''archive'']"

text \<open>A bank statement sent from a no-reply address.\<close>

definition ex_financial :: message where
  "ex_financial = mk ''7'' ''noreply@bank.example'' ''Your statement update'' 0 ''reference''"

text \<open>Five urgent alerts within four hours, read ten days later.\<close>

definition ex_urgent_burst :: "message list" where
  "ex_urgent_burst =
     [mk ''21'' ''ops@example.org'' ''Alert: disk full'' 0 ''urgent'',
      mk ''22'' ''ops@example.org'' ''Alert: disk full'' 60 ''urgent'',
      mk ''23'' ''ops@example.org'' ''Alert: disk full'' 120 ''urgent'',
      mk ''24'' ''ops@example.org'' ''Alert: disk full'' 180 ''urgent'',
      mk ''25'' ''ops@example.org'' ''Alert: disk full'' 240 ''urgent'']"

text \<open>Six reports, one every six hours.\<close>

definition ex_staggered :: "message list" where
  "ex_staggered =
     [mk ''31'' ''cron@example.org'' ''Daily report'' 0 ''reference'',
      mk ''32'' ''cron@example.org'' ''Daily report'' 360 ''reference'',
      mk ''33'' ''cron@example.org'' ''Daily report'' 720 ''reference'',
      mk ''34'' ''cron@example.org'' ''Daily report'' 1080 ''reference'',
      mk ''35'' ''cron@example.org'' ''Daily report'' 1440 ''reference'',
      mk ''36'' ''cron@example.org'' ''Daily report'' 1800 ''reference'']"

text \<open>Six messages of one sender within two hours, not in date order; their subjects
  are the same once normalised.\<close>

definition ex_six :: "message list" where
  "ex_six =
     [mk ''43'' ''ci@example.org'' ''Job failed'' 40 ''reference'',
      mk ''41'' ''ci@example.org'' ''Job failed'' 0 ''reference'',
      mk ''46'' ''ci@example.org'' ''Re: Job   failed'' 120 ''reference'',
      mk ''42'' ''ci@example.org'' ''RE: Job failed'' 20 ''reference'',
      mk ''45'' ''ci@example.org'' ''Job failed '' 80 ''reference'',
      mk ''44'' ''ci@example.org'' ''Job failed'' 60 ''reference'']"

text \<open>A checkpoint file with an older snapshot, and a new snapshot written in two pieces.\<close>

definition ex_path :: string where
  "ex_path = ''triage_output/me/checkpoint_metadata.json''"

definition ex_files :: files where
  "ex_files = Map.empty(ex_path \<mapsto> ''[1]'')"

definition ex_pieces :: "string list" where
  "ex_pieces = [''[1, '', ''2]'']"





text \<open>A mailbox given by its messages in order, each with its sequence number, its UID
  and its header; and the two ways the pipeline looks at it: by sequence number in pass 1,
  by UID in the archiver.\<close>

definition header_from :: "string \<Rightarrow> string \<Rightarrow> header" where
  "header_from addr subj =
     \<lparr>hdr_from = addr, hdr_subject = Some subj, hdr_date = ''2024-01-01T00:00:00+00:00''\<rparr>"

definition view_inbox :: "(string \<times> string \<times> header) list \<Rightarrow> inbox" where
  "view_inbox box =
     \<lparr>search_all = map fst box,
      fetch_headers = (\<lambda>batch. concat (map (\<lambda>i.
          map (\<lambda>(s, u, h). Tuple (s @ '' (FLAGS ())'') (Some h)) (filter (\<lambda>(s, u, h). s = i) box)
          @ [NotTuple]) batch))\<rparr>"

definition view_server :: "(string \<times> string \<times> header) list \<Rightarrow> nat option \<Rightarrow> mail_server" where
  "view_server box post =
     \<lparr>uid_search = map (\<lambda>(s, u, h). u) box,
      uid_fetch = (\<lambda>batch. concat (map (\<lambda>i.
          map (\<lambda>(s, u, h). Tuple (s @ '' (UID '' @ u @ '' BODY[HEADER.FIELDS (FROM)] {40}'') (Some h))
            (filter (\<lambda>(s, u, h). u = i) box)
          @ [NotTuple]) batch)),
      all_mail_before = 1000,
      all_mail_after = post,
      uid_copy = (\<lambda>uids folder. True),
      uid_store = (\<lambda>uids. True),
      list_folders = [],
      create_ok = (\<lambda>name. True)\<rparr>"

definition ex_box :: "(string \<times> string \<times> header) list" where
  "ex_box =
     [(''1'', ''901'', header_from ''Ann <ann@example.org>'' ''Lunch''),
      (''2'', ''902'', header_from ''Deals <Spam@Shop.example>'' ''Sale now''),
      (''3'', ''903'', header_from ''cat@example.org'' ''Minutes'')]"

text \<open>The same mailbox after the second message was archived: the third message now has
  the sequence number 2 and keeps its UID.\<close>

definition ex_box_later :: "(string \<times> string \<times> header) list" where
  "ex_box_later =
     [(''1'', ''901'', header_from ''Ann <ann@example.org>'' ''Lunch''),
      (''2'', ''903'', header_from ''cat@example.org'' ''Minutes'')]"


section \<open>Properties of the refinement engine\<close>

subsection \<open>The loops of the time-decay stage\<close>

lemma fold_insert_image: "fold (\<lambda>m ids. insert (f m) ids) xs S = S \<union> f ` set xs"
  by (induction xs arbitrary: S) auto

lemma td_ids_of_eq: "td_ids_of td = ref_msg_id ` decay_refs td"
  by (auto simp: td_ids_of_def decay_refs_def fold_insert_image)

lemma dedup_ids_fold:
  "fold (\<lambda>g ids. ids \<union> set (archive_msg_ids g)) gs S = S \<union> (\<Union>g\<in>set gs. set (archive_msg_ids g))"
  by (induction gs arbitrary: S) auto

lemma dedup_ids_of_eq: "dedup_ids_of gs = (\<Union>g\<in>set gs. set (archive_msg_ids g))"
  by (simp add: dedup_ids_of_def dedup_ids_fold)

lemma decay_refs_step:
  "decay_refs (decay_step now m td) =
     (if spec_decay_hit now m then insert (make_ref m (the (spec_decay_age now m))) (decay_refs td)
      else decay_refs td)"
  by (auto simp: decay_step_def decay_refs_def spec_decay_hit_def spec_decay_age_def Let_def
           split: option.splits)

lemma decay_refs_fold:
  "decay_refs (fold (decay_step now) ms td) =
     decay_refs td \<union> (\<lambda>m. make_ref m (the (spec_decay_age now m))) ` {m \<in> set ms. spec_decay_hit now m}"
  by (induction ms arbitrary: td) (auto simp: decay_refs_step)

lemma older_step:
  "older_than_12mo (decay_step now m td) =
     (if spec_review_hit now m then older_than_12mo td @ [make_ref m (the (spec_decay_age now m))]
      else older_than_12mo td)"
  by (auto simp: decay_step_def spec_review_hit_def spec_decay_age_def Let_def
           split: option.splits)

lemma older_fold:
  "older_than_12mo (fold (decay_step now) ms td) =
     older_than_12mo td @ map (\<lambda>m. make_ref m (the (spec_decay_age now m))) (filter (spec_review_hit now) ms)"
  by (induction ms arbitrary: td) (auto simp: older_step)

lemma ref_msg_id_make_ref: "ref_msg_id (make_ref m d) = msg_id m"
  by (simp add: make_ref_def)

lemma decay_refs_empty: "decay_refs empty_time_decay = {}"
  by (simp add: decay_refs_def empty_time_decay_def)

lemma td_ids_candidates:
  "td_ids_of (time_decay_candidates now ms) = msg_id ` {m \<in> set ms. spec_decay_hit now m}"
  by (simp add: td_ids_of_eq time_decay_candidates_def decay_refs_fold decay_refs_empty
        image_image ref_msg_id_make_ref)

lemma older_candidates:
  "older_than_12mo (time_decay_candidates now ms) =
     map (\<lambda>m. make_ref m (the (spec_decay_age now m))) (filter (spec_review_hit now) ms)"
  by (simp add: time_decay_candidates_def older_fold empty_time_decay_def)

lemma financial_step: "is_financial m \<Longrightarrow> decay_step now m td = td"
  by (simp add: decay_step_def split: option.splits)

lemma keep_step: "category_or_empty m \<in> KEEP_CATEGORIES \<Longrightarrow> decay_step now m td = td"
  by (simp add: decay_step_def)

subsection \<open>The loops of the burst deduplication as folds over the runs\<close>

lemma burst_from_filter:
  "sorted (map snd (x # xs)) \<Longrightarrow>
   burst_from x xs = filter (\<lambda>y. snd y - snd x \<le> day_us \<and> similar (fst x) (fst y)) xs"
proof (induction xs)
  case Nil
  then show ?case by simp
next
  case (Cons y ys)
  have srt: "sorted (map snd (x # ys))" using Cons.prems by auto
  show ?case
  proof (cases "snd y - snd x \<le> day_us")
    case True
    then show ?thesis using Cons.IH [OF srt] by simp
  next
    case False
    have "\<forall>z\<in>set ys. snd y \<le> snd z" using Cons.prems by auto
    then have "\<forall>z\<in>set ys. \<not> snd z - snd x \<le> day_us" using False by auto
    then have "filter (\<lambda>y. snd y - snd x \<le> day_us \<and> similar (fst x) (fst y)) ys = []"
      by (simp add: filter_empty_conv)
    then show ?thesis using False by simp
  qed
qed

lemma scan_windows_fold:
  "sorted (map snd xs) \<Longrightarrow> scan_windows s xs gs = fold (record_burst s) (spec_runs xs) gs"
proof (induction xs arbitrary: gs)
  case Nil
  then show ?case by simp
next
  case (Cons x xs)
  have "sorted (map snd xs)" using Cons.prems by simp
  then show ?case using Cons.IH burst_from_filter [OF Cons.prems] by simp
qed

lemma fold_record_filter:
  "fold (record_burst s) ws gs = fold (record_burst s) (filter (\<lambda>b. 5 \<le> length b) ws) gs"
  by (induction ws arbitrary: gs) (auto simp: record_burst_def)

lemma dedup_sender_fold:
  "dedup_sender (s, ms) gs =
     fold (\<lambda>sb. record_burst (fst sb) (snd sb))
       (if length ms < 5 then []
        else map (Pair s) (filter (\<lambda>b. 5 \<le> length b) (spec_runs (sort_key snd (with_dates ms))))) gs"
proof (cases "length ms < 5")
  case True
  then show ?thesis by (simp add: dedup_sender_def)
next
  case False
  have "scan_windows s (sort_key snd (with_dates ms)) gs =
        fold (record_burst s) (spec_runs (sort_key snd (with_dates ms))) gs"
    by (rule scan_windows_fold) simp
  also have "\<dots> = fold (record_burst s)
      (filter (\<lambda>b. 5 \<le> length b) (spec_runs (sort_key snd (with_dates ms)))) gs"
    by (rule fold_record_filter)
  finally show ?thesis using False by (simp add: dedup_sender_def fold_map comp_def)
qed

lemma fold_dedup_sender:
  "fold dedup_sender sgs gs =
     fold (\<lambda>sb. record_burst (fst sb) (snd sb))
       (concat (map (\<lambda>(s, ms). if length ms < 5 then []
                   else map (Pair s) (filter (\<lambda>b. 5 \<le> length b)
                          (spec_runs (sort_key snd (with_dates ms))))) sgs)) gs"
proof (induction sgs arbitrary: gs)
  case Nil
  then show ?case by simp
next
  case (Cons a sgs)
  obtain s ms where a: "a = (s, ms)" by (cases a)
  show ?case unfolding a using Cons.IH dedup_sender_fold [of s ms gs] by simp
qed

lemma dedup_candidates_spec:
  "dedup_candidates remaining =
     fold (\<lambda>sb. record_burst (fst sb) (snd sb)) (spec_bursts remaining) []"
  by (simp add: dedup_candidates_def spec_bursts_def fold_dedup_sender)

subsection \<open>Recording bursts\<close>

lemma record_burst_mono: "set gs \<subseteq> set (record_burst s b gs)"
  by (auto simp: record_burst_def Let_def)

lemma record_burst_new:
  "g \<in> set (record_burst s b gs) \<Longrightarrow> g \<in> set gs \<or> (5 \<le> length b \<and> g = make_group s b)"
  by (auto simp: record_burst_def Let_def split: if_splits)

lemma record_burst_key:
  "5 \<le> length b \<Longrightarrow> group_key (make_group s b) \<in> group_key ` set (record_burst s b gs)"
  by (auto simp: record_burst_def Let_def)

lemma record_burst_distinct:
  "distinct (map group_key gs) \<Longrightarrow> distinct (map group_key (record_burst s b gs))"
  by (auto simp: record_burst_def Let_def)

lemma fold_record_mono:
  "set gs \<subseteq> set (fold (\<lambda>sb. record_burst (fst sb) (snd sb)) ws gs)"
proof (induction ws arbitrary: gs)
  case Nil
  then show ?case by simp
next
  case (Cons w ws)
  have "set gs \<subseteq> set (record_burst (fst w) (snd w) gs)" by (rule record_burst_mono)
  also have "\<dots> \<subseteq> set (fold (\<lambda>sb. record_burst (fst sb) (snd sb)) ws (record_burst (fst w) (snd w) gs))"
    by (rule Cons.IH)
  finally show ?case by simp
qed

lemma fold_record_new:
  "g \<in> set (fold (\<lambda>sb. record_burst (fst sb) (snd sb)) ws gs) \<Longrightarrow>
   g \<in> set gs \<or> (\<exists>sb\<in>set ws. 5 \<le> length (snd sb) \<and> g = make_group (fst sb) (snd sb))"
proof (induction ws arbitrary: gs)
  case Nil
  then show ?case by simp
next
  case (Cons w ws)
  from Cons.prems have "g \<in> set (fold (\<lambda>sb. record_burst (fst sb) (snd sb)) ws (record_burst (fst w) (snd w) gs))"
    by simp
  from Cons.IH [OF this] show ?case
    using record_burst_new [of g "fst w" "snd w" gs] by auto
qed

lemma fold_record_key:
  "sb \<in> set ws \<Longrightarrow> 5 \<le> length (snd sb) \<Longrightarrow>
   group_key (make_group (fst sb) (snd sb))
     \<in> group_key ` set (fold (\<lambda>sb. record_burst (fst sb) (snd sb)) ws gs)"
proof (induction ws arbitrary: gs)
  case Nil
  then show ?case by simp
next
  case (Cons w ws)
  show ?case
  proof (cases "sb = w")
    case True
    have "group_key (make_group (fst w) (snd w)) \<in> group_key ` set (record_burst (fst w) (snd w) gs)"
      using Cons.prems True by (simp add: record_burst_key)
    then show ?thesis
      using fold_record_mono [of "record_burst (fst w) (snd w) gs" ws] True by auto
  next
    case False
    then have "sb \<in> set ws" using Cons.prems by simp
    from Cons.IH [OF this Cons.prems(2)] show ?thesis by simp
  qed
qed

lemma fold_record_distinct:
  "distinct (map group_key gs) \<Longrightarrow>
   distinct (map group_key (fold (\<lambda>sb. record_burst (fst sb) (snd sb)) ws gs))"
  by (induction ws arbitrary: gs) (simp_all add: record_burst_distinct)

lemma spec_runs_sorted:
  "sorted (map snd xs) \<Longrightarrow> b \<in> set (spec_runs xs) \<Longrightarrow> sorted (map snd b) \<and> b \<noteq> []"
proof (induction xs)
  case Nil
  then show ?case by simp
next
  case (Cons x xs)
  have "sorted (map snd (x # filter (\<lambda>y. snd y - snd x \<le> day_us \<and> similar (fst x) (fst y)) xs))"
    using Cons.prems(1) by (auto simp: sorted_filter)
  then show ?case using Cons by auto
qed

lemma spec_bursts_sorted:
  assumes "sb \<in> set (spec_bursts remaining)"
  shows "sorted (map snd (snd sb)) \<and> 5 \<le> length (snd sb)"
proof -
  from assms obtain s ms where
    "sb \<in> set (map (Pair s) (filter (\<lambda>b. 5 \<le> length b) (spec_runs (sort_key snd (with_dates ms)))))"
    by (auto simp: spec_bursts_def split: if_splits)
  then have b: "snd sb \<in> set (spec_runs (sort_key snd (with_dates ms)))" and l: "5 \<le> length (snd sb)"
    by auto
  have "sorted (map snd (sort_key snd (with_dates ms)))" by simp
  from spec_runs_sorted [OF this b] l show ?thesis by simp
qed

lemma make_group_sorted:
  assumes "sorted (map snd b)"
  shows "make_group s b =
     \<lparr>group_key = spec_key (s, b), sender = s,
      pattern = first_n_words (subject (fst (hd b))) 4,
      total_in_burst = length b, keep_msg_id = msg_id (fst (last b)),
      archive_msg_ids = map (\<lambda>a. msg_id (fst a)) (butlast b)\<rparr>"
  using sort_key_id_if_sorted [OF assms]
  by (simp add: make_group_def spec_key_def Let_def)

subsection \<open>Financial records are exempt from time decay\<close>

lemma fold_decay_financial:
  "is_financial m \<Longrightarrow>
   fold (decay_step now) (xs @ m # ys) td = fold (decay_step now) (xs @ ys) td"
  by (simp add: financial_step)

text \<open>
  Claim C8. A message that matches the financial-record heuristic (by its subject or its
  classification reason) is placed in no time-decay bucket, whatever its age: the loop body
  leaves every bucket as it was, so the buckets computed with the message in the input are
  the buckets computed without it, and the message is neither a decay hit nor a review hit.
\<close>

theorem financial_in_no_decay_bucket:
  assumes "is_financial m"
  shows "decay_step now m td = td
       \<and> time_decay_candidates now (xs @ m # ys) = time_decay_candidates now (xs @ ys)
       \<and> \<not> spec_decay_hit now m \<and> \<not> spec_review_hit now m"
  using assms
  by (simp add: financial_step time_decay_candidates_def spec_decay_hit_def spec_review_hit_def
        spec_decay_age_def)

text \<open>Witness for C8: a bank statement from a no-reply address, 400 days old, which the
  notification rule would otherwise catch.\<close>

theorem financial_in_no_decay_bucket_witness:
  "is_financial ex_financial \<and> is_notification_like ex_financial
   \<and> days_old (date ex_financial) now_400d = Some 400
   \<and> decay_step now_400d ex_financial empty_time_decay = empty_time_decay
   \<and> time_decay_candidates now_400d ([hd ex_review] @ ex_financial # tl ex_review)
       = time_decay_candidates now_400d ([hd ex_review] @ tl ex_review)"
proof -
  have fin: "is_financial ex_financial" by code_simp
  have other: "is_notification_like ex_financial \<and> days_old (date ex_financial) now_400d = Some 400"
    by code_simp
  from financial_in_no_decay_bucket [OF fin, of now_400d empty_time_decay "[hd ex_review]" "tl ex_review"]
    fin other
  show ?thesis by simp
qed


subsection \<open>The report: set arithmetic\<close>


lemma phase2_groups:
  "groups (phase2_analyse now msgs) = dedup_candidates (filter (\<lambda>m. category m \<noteq> Some ''archive'') msgs)"
  by (simp add: phase2_analyse_def Let_def)

lemma phase2_details:
  "details (phase2_analyse now msgs) =
     time_decay_candidates now (filter (\<lambda>m. category m \<noteq> Some ''archive'') msgs)"
  by (simp add: phase2_analyse_def Let_def)

lemma phase2_archive_ids:
  "archive_ids (phase2_analyse now msgs) =
     msg_id ` {m \<in> set msgs. category m = Some ''archive''}
     \<union> msg_id ` {m \<in> set msgs. category m \<noteq> Some ''archive'' \<and> spec_decay_hit now m}
     \<union> (\<Union>g\<in>set (groups (phase2_analyse now msgs)). set (archive_msg_ids g))"
proof -
  have a: "{m \<in> set (filter (\<lambda>m. category m \<noteq> Some ''archive'') msgs). spec_decay_hit now m}
         = {m \<in> set msgs. category m \<noteq> Some ''archive'' \<and> spec_decay_hit now m}"
    by auto
  have b: "set (filter (\<lambda>m. category m = Some ''archive'') msgs)
         = {m \<in> set msgs. category m = Some ''archive''}"
    by auto
  show ?thesis
    by (simp add: phase2_analyse_def Let_def fold_insert_image td_ids_candidates dedup_ids_of_eq
          a b del: set_filter)
qed

lemma phase2_keep_ids:
  "keep_ids (phase2_analyse now msgs) = msg_id ` set msgs - archive_ids (phase2_analyse now msgs)"
  by (simp add: phase2_analyse_def Let_def)

lemma phase2_flagged:
  "flagged_for_review_12mo (phase2_analyse now msgs) =
     length (filter (\<lambda>m. category m \<noteq> Some ''archive'' \<and> spec_review_hit now m) msgs)"
  by (simp add: phase2_analyse_def Let_def older_candidates conj_commute)

lemma phase2_review_entry:
  assumes "m \<in> set msgs" "category m \<noteq> Some ''archive''" "spec_review_hit now m"
  shows "make_ref m (the (spec_decay_age now m)) \<in> set (older_than_12mo (details (phase2_analyse now msgs)))"
  using assms by (simp add: phase2_details older_candidates)

lemma phase2_group_origin:
  assumes "g \<in> set (groups (phase2_analyse now msgs))"
  shows "\<exists>sb\<in>set (spec_bursts (filter (\<lambda>m. category m \<noteq> Some ''archive'') msgs)).
           sorted (map snd (snd sb)) \<and> 5 \<le> length (snd sb)
           \<and> group_key g = spec_key sb \<and> sender g = fst sb \<and> total_in_burst g = length (snd sb)
           \<and> keep_msg_id g = msg_id (fst (last (snd sb)))
           \<and> archive_msg_ids g = map (\<lambda>a. msg_id (fst a)) (butlast (snd sb))"
proof -
  let ?rem = "filter (\<lambda>m. category m \<noteq> Some ''archive'') msgs"
  from assms have "g \<in> set (fold (\<lambda>sb. record_burst (fst sb) (snd sb)) (spec_bursts ?rem) [])"
    by (simp add: phase2_groups dedup_candidates_spec)
  from fold_record_new [OF this] obtain sb where
    sb: "sb \<in> set (spec_bursts ?rem)" and g: "g = make_group (fst sb) (snd sb)"
    by auto
  from spec_bursts_sorted [OF sb] have srt: "sorted (map snd (snd sb))" and len: "5 \<le> length (snd sb)"
    by simp_all
  from make_group_sorted [OF srt, of "fst sb"] g
  have "group_key g = spec_key sb \<and> sender g = fst sb \<and> total_in_burst g = length (snd sb)
        \<and> keep_msg_id g = msg_id (fst (last (snd sb)))
        \<and> archive_msg_ids g = map (\<lambda>a. msg_id (fst a)) (butlast (snd sb))"
    by simp
  with sb srt len show ?thesis by blast
qed

lemma phase2_unmatched_kept:
  assumes dist: "distinct (map msg_id msgs)"
      and m: "m \<in> set msgs"
      and na: "category m \<noteq> Some ''archive''"
      and nd: "\<not> spec_decay_hit now m"
      and ng: "msg_id m \<notin> (\<Union>g\<in>set (groups (phase2_analyse now msgs)). set (archive_msg_ids g))"
  shows "msg_id m \<notin> archive_ids (phase2_analyse now msgs) \<and> msg_id m \<in> keep_ids (phase2_analyse now msgs)"
proof -
  have inj: "inj_on msg_id (set msgs)" using dist by (simp add: distinct_map)
  have same: "\<And>m'. m' \<in> set msgs \<Longrightarrow> msg_id m' = msg_id m \<Longrightarrow> m' = m"
    using inj m by (auto dest: inj_onD)
  have "msg_id m \<notin> msg_id ` {m \<in> set msgs. category m = Some ''archive''}"
    using same na by auto
  moreover have "msg_id m \<notin> msg_id ` {m \<in> set msgs. category m \<noteq> Some ''archive'' \<and> spec_decay_hit now m}"
    using same nd by auto
  ultimately have "msg_id m \<notin> archive_ids (phase2_analyse now msgs)"
    using ng by (simp add: phase2_archive_ids)
  then show ?thesis using m by (simp add: phase2_keep_ids)
qed

text \<open>
  Claim C1, as amended. For every input list and clock: the final archive-id set is the
  union of the ids of the messages classified \<^verbatim>\<open>archive\<close>, the ids of the time-decay
  hits among the other messages (the review bucket contributes nothing), and the ids every
  recorded burst lists for archive; every recorded burst lists all members of a date-sorted
  run but its newest, which it keeps; the keep-id set is the complement over all input ids;
  the review count is the number of messages older than 365 days that are not classified
  \<^verbatim>\<open>archive\<close>, not in a never-expire category, not financial and have a parsed date,
  and each of them has its entry in the review bucket; and, when the ids of the input are
  distinct, a message that is not classified \<^verbatim>\<open>archive\<close>, is no time-decay hit and
  is listed by no burst has its id in the keep-id set and not in the archive-id set.
\<close>

theorem refinement_set_arithmetic:
  "archive_ids (phase2_analyse now msgs) =
       msg_id ` {m \<in> set msgs. category m = Some ''archive''}
     \<union> msg_id ` {m \<in> set msgs. category m \<noteq> Some ''archive'' \<and> spec_decay_hit now m}
     \<union> (\<Union>g\<in>set (groups (phase2_analyse now msgs)). set (archive_msg_ids g))
   \<and> keep_ids (phase2_analyse now msgs) = msg_id ` set msgs - archive_ids (phase2_analyse now msgs)
   \<and> flagged_for_review_12mo (phase2_analyse now msgs) =
       length (filter (\<lambda>m. category m \<noteq> Some ''archive'' \<and> spec_review_hit now m) msgs)
   \<and> (\<forall>g\<in>set (groups (phase2_analyse now msgs)).
        \<exists>sb\<in>set (spec_bursts (filter (\<lambda>m. category m \<noteq> Some ''archive'') msgs)).
          sorted (map snd (snd sb))
          \<and> keep_msg_id g = msg_id (fst (last (snd sb)))
          \<and> archive_msg_ids g = map (\<lambda>a. msg_id (fst a)) (butlast (snd sb)))
   \<and> (\<forall>m\<in>set msgs. category m \<noteq> Some ''archive'' \<longrightarrow> spec_review_hit now m \<longrightarrow>
        make_ref m (the (spec_decay_age now m))
          \<in> set (older_than_12mo (details (phase2_analyse now msgs))))
   \<and> (distinct (map msg_id msgs) \<longrightarrow>
        (\<forall>m\<in>set msgs. category m \<noteq> Some ''archive'' \<longrightarrow> \<not> spec_decay_hit now m \<longrightarrow>
           msg_id m \<notin> (\<Union>g\<in>set (groups (phase2_analyse now msgs)). set (archive_msg_ids g)) \<longrightarrow>
           msg_id m \<notin> archive_ids (phase2_analyse now msgs)
           \<and> msg_id m \<in> keep_ids (phase2_analyse now msgs)))"
proof (intro conjI)
  show "archive_ids (phase2_analyse now msgs) =
       msg_id ` {m \<in> set msgs. category m = Some ''archive''}
     \<union> msg_id ` {m \<in> set msgs. category m \<noteq> Some ''archive'' \<and> spec_decay_hit now m}
     \<union> (\<Union>g\<in>set (groups (phase2_analyse now msgs)). set (archive_msg_ids g))"
    by (rule phase2_archive_ids)
  show "keep_ids (phase2_analyse now msgs) = msg_id ` set msgs - archive_ids (phase2_analyse now msgs)"
    by (rule phase2_keep_ids)
  show "flagged_for_review_12mo (phase2_analyse now msgs) =
       length (filter (\<lambda>m. category m \<noteq> Some ''archive'' \<and> spec_review_hit now m) msgs)"
    by (rule phase2_flagged)
  show "\<forall>g\<in>set (groups (phase2_analyse now msgs)).
        \<exists>sb\<in>set (spec_bursts (filter (\<lambda>m. category m \<noteq> Some ''archive'') msgs)).
          sorted (map snd (snd sb))
          \<and> keep_msg_id g = msg_id (fst (last (snd sb)))
          \<and> archive_msg_ids g = map (\<lambda>a. msg_id (fst a)) (butlast (snd sb))"
    using phase2_group_origin [of _ now msgs] by blast
  show "\<forall>m\<in>set msgs. category m \<noteq> Some ''archive'' \<longrightarrow> spec_review_hit now m \<longrightarrow>
        make_ref m (the (spec_decay_age now m))
          \<in> set (older_than_12mo (details (phase2_analyse now msgs)))"
    using phase2_review_entry [of _ msgs now] by blast
  show "distinct (map msg_id msgs) \<longrightarrow>
        (\<forall>m\<in>set msgs. category m \<noteq> Some ''archive'' \<longrightarrow> \<not> spec_decay_hit now m \<longrightarrow>
           msg_id m \<notin> (\<Union>g\<in>set (groups (phase2_analyse now msgs)). set (archive_msg_ids g)) \<longrightarrow>
           msg_id m \<notin> archive_ids (phase2_analyse now msgs)
           \<and> msg_id m \<in> keep_ids (phase2_analyse now msgs))"
    using phase2_unmatched_kept [of msgs _ now] by blast
qed

text \<open>The claim as first stated fails: of two messages that are 400 days old and match no
  decay rule and no burst, the urgent one is not counted in the review bucket, and the one
  classified \<^verbatim>\<open>archive\<close> is in the archive-id set.\<close>

lemma not_reviewed_report:
  "phase2_analyse now_400d ex_not_reviewed =
     \<lparr>details = empty_time_decay, groups = [], flagged_for_review_12mo = 0,
      archive_ids = {''2''}, keep_ids = {''1''}\<rparr>"
  by code_simp

lemma not_reviewed_messages:
  "ex_not_reviewed ! 0 \<in> set ex_not_reviewed \<and> ex_not_reviewed ! 1 \<in> set ex_not_reviewed
   \<and> days_old (date (ex_not_reviewed ! 0)) now_400d = Some 400
   \<and> days_old (date (ex_not_reviewed ! 1)) now_400d = Some 400
   \<and> \<not> is_notification_like (ex_not_reviewed ! 0) \<and> \<not> is_receipt_like (ex_not_reviewed ! 0)
   \<and> \<not> is_security_alert (ex_not_reviewed ! 0) \<and> \<not> is_newsletter_like (ex_not_reviewed ! 0)
   \<and> \<not> is_notification_like (ex_not_reviewed ! 1) \<and> \<not> is_receipt_like (ex_not_reviewed ! 1)
   \<and> \<not> is_security_alert (ex_not_reviewed ! 1) \<and> \<not> is_newsletter_like (ex_not_reviewed ! 1)
   \<and> msg_id (ex_not_reviewed ! 1) = ''2''"
  by code_simp

theorem old_message_not_reviewed_or_archived:
  "ex_not_reviewed ! 0 \<in> set ex_not_reviewed \<and> ex_not_reviewed ! 1 \<in> set ex_not_reviewed
   \<and> days_old (date (ex_not_reviewed ! 0)) now_400d = Some 400
   \<and> days_old (date (ex_not_reviewed ! 1)) now_400d = Some 400
   \<and> \<not> is_notification_like (ex_not_reviewed ! 0) \<and> \<not> is_receipt_like (ex_not_reviewed ! 0)
   \<and> \<not> is_security_alert (ex_not_reviewed ! 0) \<and> \<not> is_newsletter_like (ex_not_reviewed ! 0)
   \<and> \<not> is_notification_like (ex_not_reviewed ! 1) \<and> \<not> is_receipt_like (ex_not_reviewed ! 1)
   \<and> \<not> is_security_alert (ex_not_reviewed ! 1) \<and> \<not> is_newsletter_like (ex_not_reviewed ! 1)
   \<and> groups (phase2_analyse now_400d ex_not_reviewed) = []
   \<and> older_than_12mo (details (phase2_analyse now_400d ex_not_reviewed)) = []
   \<and> flagged_for_review_12mo (phase2_analyse now_400d ex_not_reviewed) = 0
   \<and> msg_id (ex_not_reviewed ! 1) \<in> archive_ids (phase2_analyse now_400d ex_not_reviewed)"
  using not_reviewed_messages
  by (simp add: not_reviewed_report empty_time_decay_def)

text \<open>Witness for C1: a personal message that is 400 days old, beside a message classified
  \<^verbatim>\<open>archive\<close> and a notification.\<close>

lemma review_example_facts:
  "hd ex_review \<in> set ex_review
   \<and> category (hd ex_review) \<noteq> Some ''archive''
   \<and> spec_review_hit now_400d (hd ex_review)
   \<and> \<not> spec_decay_hit now_400d (hd ex_review)
   \<and> distinct (map msg_id ex_review)
   \<and> msg_id (hd ex_review) = ''10''"
  by code_simp

lemma review_example_groups: "groups (phase2_analyse now_400d ex_review) = []"
  by code_simp

theorem refinement_set_arithmetic_witness:
  "hd ex_review \<in> set ex_review
   \<and> category (hd ex_review) \<noteq> Some ''archive''
   \<and> spec_review_hit now_400d (hd ex_review)
   \<and> \<not> spec_decay_hit now_400d (hd ex_review)
   \<and> distinct (map msg_id ex_review)
   \<and> make_ref (hd ex_review) (the (spec_decay_age now_400d (hd ex_review)))
        \<in> set (older_than_12mo (details (phase2_analyse now_400d ex_review)))
   \<and> ''10'' \<notin> archive_ids (phase2_analyse now_400d ex_review)
   \<and> ''10'' \<in> keep_ids (phase2_analyse now_400d ex_review)"
proof -
  note f = review_example_facts
  have ng: "msg_id (hd ex_review)
      \<notin> (\<Union>g\<in>set (groups (phase2_analyse now_400d ex_review)). set (archive_msg_ids g))"
    by (simp add: review_example_groups)
  from refinement_set_arithmetic [of now_400d ex_review] f ng
  have "make_ref (hd ex_review) (the (spec_decay_age now_400d (hd ex_review)))
        \<in> set (older_than_12mo (details (phase2_analyse now_400d ex_review)))
      \<and> msg_id (hd ex_review) \<notin> archive_ids (phase2_analyse now_400d ex_review)
      \<and> msg_id (hd ex_review) \<in> keep_ids (phase2_analyse now_400d ex_review)"
    by blast
  with f show ?thesis by simp
qed

subsection \<open>Bursts of a single sender with one subject\<close>

lemma fold_group_add_same:
  "\<forall>m\<in>set ms. from_email m = s \<Longrightarrow> fold group_add ms [(s, acc)] = [(s, acc @ ms)]"
  by (induction ms arbitrary: acc) auto

lemma sender_groups_single:
  "ms \<noteq> [] \<Longrightarrow> \<forall>m\<in>set ms. from_email m = s \<Longrightarrow> sender_groups ms = [(s, ms)]"
  by (cases ms) (simp_all add: sender_groups_def fold_group_add_same)

lemma with_dates_all:
  "\<forall>m\<in>set ms. date m \<noteq> None \<Longrightarrow> with_dates ms = map (\<lambda>m. (m, the (date m))) ms"
  by (induction ms) auto

lemma spec_runs_all:
  assumes "\<forall>x\<in>set xs. \<forall>y\<in>set xs. snd y - snd x \<le> day_us \<and> similar (fst x) (fst y)"
  shows "spec_runs xs = map (\<lambda>i. drop i xs) [0..<length xs]"
  using assms
proof (induction xs)
  case Nil
  then show ?case by simp
next
  case (Cons x xs)
  have all: "filter (\<lambda>y. snd y - snd x \<le> day_us \<and> similar (fst x) (fst y)) xs = xs"
    using Cons.prems by (simp add: filter_id_conv)
  have "spec_runs xs = map (\<lambda>i. drop i xs) [0..<length xs]"
    using Cons.IH Cons.prems by simp
  then show ?case using all by (simp add: map_upt_Suc del: upt_Suc)
qed

lemma make_group_drop:
  assumes srt: "sorted (map snd xs)" and i: "i < length xs"
  shows "keep_msg_id (make_group s (drop i xs)) = msg_id (fst (last xs))
       \<and> set (archive_msg_ids (make_group s (drop i xs)))
           \<subseteq> set (map (\<lambda>a. msg_id (fst a)) (butlast xs))"
proof -
  have "sorted (drop i (map snd xs))" using srt by (rule sorted_wrt_drop)
  then have "sorted (map snd (drop i xs))" by (simp add: drop_map)
  from make_group_sorted [OF this, of s]
  have k: "keep_msg_id (make_group s (drop i xs)) = msg_id (fst (last (drop i xs)))"
    and a: "archive_msg_ids (make_group s (drop i xs)) = map (\<lambda>a. msg_id (fst a)) (butlast (drop i xs))"
    by simp_all
  have "set (butlast (drop i xs)) \<subseteq> set (butlast xs)"
    by (simp add: butlast_drop set_drop_subset)
  then show ?thesis using k a i by auto
qed

lemma burst_single_sender:
  assumes len: "5 \<le> length msgs"
    and one: "\<forall>m\<in>set msgs. from_email m = s \<and> date m \<noteq> None"
    and subj: "\<forall>m\<in>set msgs. \<forall>m'\<in>set msgs.
                 normalise_subject (subject m) = normalise_subject (subject m')"
    and span: "\<forall>m\<in>set msgs. \<forall>m'\<in>set msgs. the (date m') - the (date m) \<le> day_us"
    and xs: "xs = sort_key snd (with_dates msgs)"
  shows "dedup_ids_of (dedup_candidates msgs) = set (map (\<lambda>a. msg_id (fst a)) (butlast xs))
       \<and> (\<forall>g\<in>set (dedup_candidates msgs). keep_msg_id g = msg_id (fst (last xs)))
       \<and> dedup_candidates msgs \<noteq> []"
proof -
  have ne: "msgs \<noteq> []" using len by auto
  have sg: "sender_groups msgs = [(s, msgs)]"
    using sender_groups_single [OF ne] one by blast
  have wd: "with_dates msgs = map (\<lambda>m. (m, the (date m))) msgs"
    using with_dates_all one by blast
  have setxs: "set xs = (\<lambda>m. (m, the (date m))) ` set msgs" by (simp add: xs wd)
  have lenxs: "length xs = length msgs" by (simp add: xs wd)
  have srt: "sorted (map snd xs)" by (simp add: xs)
  have P: "\<forall>x\<in>set xs. \<forall>y\<in>set xs. snd y - snd x \<le> day_us \<and> similar (fst x) (fst y)"
  proof (intro ballI)
    fix x y
    assume "x \<in> set xs" "y \<in> set xs"
    then obtain m m' where m: "m \<in> set msgs" "x = (m, the (date m))"
      and m': "m' \<in> set msgs" "y = (m', the (date m'))"
      unfolding setxs by blast
    have "normalise_subject (subject m) = normalise_subject (subject m')"
      using subj m(1) m'(1) by blast
    then have "similar m m'" by (simp add: similar_def Let_def)
    moreover have "the (date m') - the (date m) \<le> day_us" using span m(1) m'(1) by blast
    ultimately show "snd y - snd x \<le> day_us \<and> similar (fst x) (fst y)"
      by (simp add: m(2) m'(2))
  qed
  have runs: "spec_runs xs = map (\<lambda>i. drop i xs) [0..<length xs]"
    by (rule spec_runs_all [OF P])
  have sb: "spec_bursts msgs =
      map (Pair s) (filter (\<lambda>b. 5 \<le> length b) (map (\<lambda>i. drop i xs) [0..<length xs]))"
    using len by (simp add: spec_bursts_def sg runs [unfolded xs] xs)
  have pos: "0 < length xs" using len lenxs by linarith
  have upt: "[0..<length xs] = 0 # [Suc 0..<length xs]"
    by (rule upt_conv_Cons [OF pos])
  have "5 \<le> length xs" using len lenxs by simp
  then obtain rest where hd: "spec_bursts msgs = (s, xs) # rest"
    by (simp add: sb upt)
  have dc: "dedup_candidates msgs = fold (\<lambda>sb. record_burst (fst sb) (snd sb)) (spec_bursts msgs) []"
    by (rule dedup_candidates_spec)
  have first: "record_burst s xs [] = [make_group s xs]"
    using \<open>5 \<le> length xs\<close> by (simp add: record_burst_def)
  have g0: "make_group s xs \<in> set (dedup_candidates msgs)"
    using fold_record_mono [of "[make_group s xs]" rest] by (simp add: dc hd first)
  have a0: "archive_msg_ids (make_group s xs) = map (\<lambda>a. msg_id (fst a)) (butlast xs)"
    using make_group_sorted [OF srt, of s] by simp
  have each: "\<exists>i<length xs. g = make_group s (drop i xs)" if "g \<in> set (dedup_candidates msgs)" for g
  proof -
    from that have "g \<in> set (fold (\<lambda>sb. record_burst (fst sb) (snd sb)) (spec_bursts msgs) [])"
      by (simp add: dc)
    from fold_record_new [OF this] obtain c where
      c: "c \<in> set (spec_bursts msgs)" and g: "g = make_group (fst c) (snd c)"
      by auto
    from c obtain i where "i < length xs" "c = (s, drop i xs)" by (auto simp: sb)
    with g show ?thesis by auto
  qed
  have keep: "\<forall>g\<in>set (dedup_candidates msgs). keep_msg_id g = msg_id (fst (last xs))"
    using each make_group_drop [OF srt] by blast
  have sub: "\<forall>g\<in>set (dedup_candidates msgs).
      set (archive_msg_ids g) \<subseteq> set (map (\<lambda>a. msg_id (fst a)) (butlast xs))"
    using each make_group_drop [OF srt] by blast
  have "dedup_ids_of (dedup_candidates msgs) = set (map (\<lambda>a. msg_id (fst a)) (butlast xs))"
  proof
    show "dedup_ids_of (dedup_candidates msgs) \<subseteq> set (map (\<lambda>a. msg_id (fst a)) (butlast xs))"
      using sub by (auto simp: dedup_ids_of_eq)
    show "set (map (\<lambda>a. msg_id (fst a)) (butlast xs)) \<subseteq> dedup_ids_of (dedup_candidates msgs)"
      using g0 a0 unfolding dedup_ids_of_eq by (metis UN_upper)
  qed
  with keep g0 show ?thesis by auto
qed

subsection \<open>The recorded groups are the first bursts by key\<close>

lemma record_burst_spec:
  assumes "sb \<in> set (spec_bursts remaining)"
  shows "record_burst (fst sb) (snd sb) gs =
     (if spec_key sb \<in> group_key ` set gs then gs else gs @ [make_group (fst sb) (snd sb)])"
proof -
  from spec_bursts_sorted [OF assms] have srt: "sorted (map snd (snd sb))" and len: "5 \<le> length (snd sb)"
    by simp_all
  have "group_key (make_group (fst sb) (snd sb)) = spec_key sb"
    using make_group_sorted [OF srt, of "fst sb"] by simp
  then show ?thesis using len by (simp add: record_burst_def Let_def)
qed

lemma dedup_candidates_first_by_key:
  "dedup_candidates remaining =
     fold (\<lambda>sb gs. if spec_key sb \<in> group_key ` set gs then gs
                    else gs @ [make_group (fst sb) (snd sb)])
       (spec_bursts remaining) []"
proof -
  have "fold (\<lambda>sb. record_burst (fst sb) (snd sb)) (spec_bursts remaining) [] =
        fold (\<lambda>sb gs. if spec_key sb \<in> group_key ` set gs then gs
                    else gs @ [make_group (fst sb) (snd sb)]) (spec_bursts remaining) []"
    by (rule fold_cong) (auto simp: record_burst_spec fun_eq_iff)
  then show ?thesis by (simp add: dedup_candidates_spec)
qed

lemma dedup_candidates_distinct: "distinct (map group_key (dedup_candidates remaining))"
  unfolding dedup_candidates_spec by (rule fold_record_distinct) simp

lemma dedup_candidates_covers:
  assumes "sb \<in> set (spec_bursts remaining)"
  shows "spec_key sb \<in> group_key ` set (dedup_candidates remaining)"
proof -
  from spec_bursts_sorted [OF assms] have srt: "sorted (map snd (snd sb))" and len: "5 \<le> length (snd sb)"
    by simp_all
  have "group_key (make_group (fst sb) (snd sb)) = spec_key sb"
    using make_group_sorted [OF srt, of "fst sb"] by simp
  with fold_record_key [OF assms len, of "[]"] show ?thesis
    by (simp add: dedup_candidates_spec)
qed

lemma newest_apart:
  assumes d: "distinct (map f xs)" and ne: "xs \<noteq> []"
  shows "card (set (map f (butlast xs))) = length xs - 1
       \<and> f (last xs) \<notin> set (map f (butlast xs))
       \<and> set (map f xs) = insert (f (last xs)) (set (map f (butlast xs)))"
proof -
  from ne obtain ys y where xs: "xs = ys @ [y]" by (cases xs rule: rev_cases) auto
  from d have dy: "distinct (map f ys)" and ny: "f y \<notin> set (map f ys)" by (simp_all add: xs)
  have "card (set (map f ys)) = length (map f ys)" using dy by (rule distinct_card)
  then show ?thesis using ny by (simp add: xs)
qed

lemma sorted_ids:
  assumes dates: "\<forall>m\<in>set msgs. date m \<noteq> None"
    and dist: "distinct (map msg_id msgs)"
  shows "distinct (map (\<lambda>a. msg_id (fst a)) (sort_key snd (with_dates msgs)))
       \<and> set (map (\<lambda>a. msg_id (fst a)) (sort_key snd (with_dates msgs))) = msg_id ` set msgs
       \<and> length (sort_key snd (with_dates msgs)) = length msgs"
proof -
  have wd: "with_dates msgs = map (\<lambda>m. (m, the (date m))) msgs"
    using with_dates_all dates by blast
  have m: "map (\<lambda>a. msg_id (fst a)) (with_dates msgs) = map msg_id msgs"
    by (simp add: wd comp_def)
  have "distinct (map (\<lambda>a. msg_id (fst a)) (with_dates msgs))" using dist by (simp add: m)
  then have d: "distinct (map (\<lambda>a. msg_id (fst a)) (sort_key snd (with_dates msgs)))"
    by (simp add: distinct_map)
  have "set (map (\<lambda>a. msg_id (fst a)) (sort_key snd (with_dates msgs)))
      = set (map (\<lambda>a. msg_id (fst a)) (with_dates msgs))"
    by simp
  also have "\<dots> = msg_id ` set msgs" by (simp only: m set_map)
  finally show ?thesis using d by (simp add: wd)
qed

lemma six_messages:
  assumes len: "length msgs = 6"
    and one: "\<forall>m\<in>set msgs. from_email m = s \<and> category m \<noteq> Some ''archive'' \<and> date m \<noteq> None"
    and subj: "\<forall>m\<in>set msgs. \<forall>m'\<in>set msgs.
                 normalise_subject (subject m) = normalise_subject (subject m')"
    and span: "\<forall>m\<in>set msgs. \<forall>m'\<in>set msgs. the (date m') - the (date m) \<le> 2 * 3600000000"
    and dist: "distinct (map msg_id msgs)"
  shows "dedup_ids_of (groups (phase2_analyse now msgs)) =
           set (map (\<lambda>a. msg_id (fst a)) (butlast (sort_key snd (with_dates msgs))))
       \<and> card (dedup_ids_of (groups (phase2_analyse now msgs))) = 5
       \<and> (\<forall>g\<in>set (groups (phase2_analyse now msgs)).
            keep_msg_id g = msg_id (fst (last (sort_key snd (with_dates msgs)))))
       \<and> groups (phase2_analyse now msgs) \<noteq> []
       \<and> msg_id (fst (last (sort_key snd (with_dates msgs))))
            \<notin> dedup_ids_of (groups (phase2_analyse now msgs))
       \<and> ((\<forall>m\<in>set msgs. \<not> spec_decay_hit now m) \<longrightarrow>
            archive_ids (phase2_analyse now msgs) = dedup_ids_of (groups (phase2_analyse now msgs))
            \<and> keep_ids (phase2_analyse now msgs)
                = {msg_id (fst (last (sort_key snd (with_dates msgs))))})"
proof -
  let ?xs = "sort_key snd (with_dates msgs)"
  let ?f = "\<lambda>a. msg_id (fst a)"
  let ?r = "phase2_analyse now msgs"
  have rem: "filter (\<lambda>m. category m \<noteq> Some ''archive'') msgs = msgs"
    using one by (simp add: filter_id_conv)
  have gr: "groups ?r = dedup_candidates msgs" by (simp add: phase2_groups rem)
  have len5: "5 \<le> length msgs" using len by simp
  have one': "\<forall>m\<in>set msgs. from_email m = s \<and> date m \<noteq> None" using one by blast
  have span': "\<forall>m\<in>set msgs. \<forall>m'\<in>set msgs. the (date m') - the (date m) \<le> day_us"
  proof (intro ballI)
    fix m m' assume "m \<in> set msgs" "m' \<in> set msgs"
    with span have "the (date m') - the (date m) \<le> 2 * 3600000000" by blast
    then show "the (date m') - the (date m) \<le> day_us" by (simp add: day_us_def)
  qed
  from burst_single_sender [OF len5 one' subj span' refl]
  have ids: "dedup_ids_of (dedup_candidates msgs) = set (map ?f (butlast ?xs))"
    and keep: "\<forall>g\<in>set (dedup_candidates msgs). keep_msg_id g = msg_id (fst (last ?xs))"
    and ne: "dedup_candidates msgs \<noteq> []"
    by blast+
  have dates: "\<forall>m\<in>set msgs. date m \<noteq> None" using one by blast
  from sorted_ids [OF dates dist]
  have dxs: "distinct (map ?f ?xs)" and sxs: "set (map ?f ?xs) = msg_id ` set msgs"
    and lxs: "length ?xs = length msgs"
    by blast+
  have xne: "?xs \<noteq> []"
  proof
    assume "?xs = []"
    then have "length ?xs = 0" by (simp only: list.size)
    with lxs len show False by simp
  qed
  from newest_apart [OF dxs xne]
  have card: "card (set (map ?f (butlast ?xs))) = length ?xs - 1"
    and apart: "?f (last ?xs) \<notin> set (map ?f (butlast ?xs))"
    and all: "set (map ?f ?xs) = insert (?f (last ?xs)) (set (map ?f (butlast ?xs)))"
    by blast+
  have c5: "card (dedup_ids_of (groups ?r)) = 5"
    using card lxs len by (simp add: gr ids)
  have final: "archive_ids ?r = dedup_ids_of (groups ?r) \<and> keep_ids ?r = {msg_id (fst (last ?xs))}"
    if nd: "\<forall>m\<in>set msgs. \<not> spec_decay_hit now m"
  proof -
    have a: "msg_id ` {m \<in> set msgs. category m = Some ''archive''} = {}" using one by auto
    have t: "msg_id ` {m \<in> set msgs. category m \<noteq> Some ''archive'' \<and> spec_decay_hit now m} = {}"
      using nd by auto
    have ar: "archive_ids ?r = dedup_ids_of (groups ?r)"
      unfolding phase2_archive_ids a t dedup_ids_of_eq by simp
    have "keep_ids ?r = msg_id ` set msgs - set (map ?f (butlast ?xs))"
      by (simp only: phase2_keep_ids ar gr ids)
    also have "\<dots> = {msg_id (fst (last ?xs))}"
      using apart unfolding sxs [symmetric] all by auto
    finally show ?thesis using ar by simp
  qed
  show ?thesis
    using ids keep ne apart c5 final unfolding gr by (simp only:) blast
qed

subsection \<open>Burst deduplication\<close>

text \<open>
  Claim C4, as amended. The runs are taken, for every sender with at least five messages not
  classified \<^verbatim>\<open>archive\<close>, over the sender's messages with a parsed date in date order:
  a run is a start together with every later message within 24 hours of the start whose
  normalised subject has the start's 4-word prefix or a word-level Jaccard similarity of
  at least 3/5 with it. The recorded groups are the runs of at least five members taken in
  order, each recorded unless a group with its key (the sender and the 4-word prefix of the
  start's subject as it is) is already recorded: no key is recorded twice, every recorded
  group keeps the newest member of its run and lists all the others for archive, and every
  run of at least five members has its key among the recorded groups. A run whose key is
  already recorded adds nothing. For six messages of one sender that are not classified
  \<^verbatim>\<open>archive\<close>, have parsed dates within two hours, the same normalised subject and
  distinct ids, the ids listed for archive are exactly the five oldest, every recorded
  group keeps the newest, and, when none of the six is a time-decay hit, the archive-id set
  is those five ids and the keep-id set holds the newest alone.
\<close>

theorem burst_dedup:
  "distinct (map group_key (groups (phase2_analyse now msgs)))
   \<and> groups (phase2_analyse now msgs) =
       fold (\<lambda>sb gs. if spec_key sb \<in> group_key ` set gs then gs
                      else gs @ [make_group (fst sb) (snd sb)])
         (spec_bursts (filter (\<lambda>m. category m \<noteq> Some ''archive'') msgs)) []
   \<and> (\<forall>g\<in>set (groups (phase2_analyse now msgs)).
        \<exists>sb\<in>set (spec_bursts (filter (\<lambda>m. category m \<noteq> Some ''archive'') msgs)).
          sorted (map snd (snd sb)) \<and> 5 \<le> length (snd sb)
          \<and> group_key g = spec_key sb \<and> sender g = fst sb \<and> total_in_burst g = length (snd sb)
          \<and> keep_msg_id g = msg_id (fst (last (snd sb)))
          \<and> archive_msg_ids g = map (\<lambda>a. msg_id (fst a)) (butlast (snd sb)))
   \<and> (\<forall>sb\<in>set (spec_bursts (filter (\<lambda>m. category m \<noteq> Some ''archive'') msgs)).
        spec_key sb \<in> group_key ` set (groups (phase2_analyse now msgs)))
   \<and> (length msgs = 6
        \<and> (\<forall>m\<in>set msgs. from_email m = s \<and> category m \<noteq> Some ''archive'' \<and> date m \<noteq> None)
        \<and> (\<forall>m\<in>set msgs. \<forall>m'\<in>set msgs.
               normalise_subject (subject m) = normalise_subject (subject m'))
        \<and> (\<forall>m\<in>set msgs. \<forall>m'\<in>set msgs. the (date m') - the (date m) \<le> 2 * 3600000000)
        \<and> distinct (map msg_id msgs)
      \<longrightarrow>
        dedup_ids_of (groups (phase2_analyse now msgs)) =
           set (map (\<lambda>a. msg_id (fst a)) (butlast (sort_key snd (with_dates msgs))))
        \<and> card (dedup_ids_of (groups (phase2_analyse now msgs))) = 5
        \<and> (\<forall>g\<in>set (groups (phase2_analyse now msgs)).
             keep_msg_id g = msg_id (fst (last (sort_key snd (with_dates msgs)))))
        \<and> groups (phase2_analyse now msgs) \<noteq> []
        \<and> msg_id (fst (last (sort_key snd (with_dates msgs))))
             \<notin> dedup_ids_of (groups (phase2_analyse now msgs))
        \<and> ((\<forall>m\<in>set msgs. \<not> spec_decay_hit now m) \<longrightarrow>
             archive_ids (phase2_analyse now msgs) = dedup_ids_of (groups (phase2_analyse now msgs))
             \<and> keep_ids (phase2_analyse now msgs)
                 = {msg_id (fst (last (sort_key snd (with_dates msgs))))}))"
proof (intro conjI impI)
  show "distinct (map group_key (groups (phase2_analyse now msgs)))"
    by (simp add: phase2_groups dedup_candidates_distinct)
  show "groups (phase2_analyse now msgs) =
       fold (\<lambda>sb gs. if spec_key sb \<in> group_key ` set gs then gs
                      else gs @ [make_group (fst sb) (snd sb)])
         (spec_bursts (filter (\<lambda>m. category m \<noteq> Some ''archive'') msgs)) []"
    unfolding phase2_groups by (rule dedup_candidates_first_by_key)
  show "\<forall>g\<in>set (groups (phase2_analyse now msgs)).
        \<exists>sb\<in>set (spec_bursts (filter (\<lambda>m. category m \<noteq> Some ''archive'') msgs)).
          sorted (map snd (snd sb)) \<and> 5 \<le> length (snd sb)
          \<and> group_key g = spec_key sb \<and> sender g = fst sb \<and> total_in_burst g = length (snd sb)
          \<and> keep_msg_id g = msg_id (fst (last (snd sb)))
          \<and> archive_msg_ids g = map (\<lambda>a. msg_id (fst a)) (butlast (snd sb))"
    using phase2_group_origin [of _ now msgs] by blast
  show "\<forall>sb\<in>set (spec_bursts (filter (\<lambda>m. category m \<noteq> Some ''archive'') msgs)).
        spec_key sb \<in> group_key ` set (groups (phase2_analyse now msgs))"
    unfolding phase2_groups using dedup_candidates_covers by blast
next
  assume h: "length msgs = 6
        \<and> (\<forall>m\<in>set msgs. from_email m = s \<and> category m \<noteq> Some ''archive'' \<and> date m \<noteq> None)
        \<and> (\<forall>m\<in>set msgs. \<forall>m'\<in>set msgs.
               normalise_subject (subject m) = normalise_subject (subject m'))
        \<and> (\<forall>m\<in>set msgs. \<forall>m'\<in>set msgs. the (date m') - the (date m) \<le> 2 * 3600000000)
        \<and> distinct (map msg_id msgs)"
  then have h1: "length msgs = 6"
    and h2: "\<forall>m\<in>set msgs. from_email m = s \<and> category m \<noteq> Some ''archive'' \<and> date m \<noteq> None"
    and h3: "\<forall>m\<in>set msgs. \<forall>m'\<in>set msgs.
               normalise_subject (subject m) = normalise_subject (subject m')"
    and h4: "\<forall>m\<in>set msgs. \<forall>m'\<in>set msgs. the (date m') - the (date m) \<le> 2 * 3600000000"
    and h5: "distinct (map msg_id msgs)"
    by blast+
  note six = six_messages [OF h1 h2 h3 h4 h5, of now]
  show "dedup_ids_of (groups (phase2_analyse now msgs)) =
           set (map (\<lambda>a. msg_id (fst a)) (butlast (sort_key snd (with_dates msgs))))"
    using six by blast
  show "card (dedup_ids_of (groups (phase2_analyse now msgs))) = 5"
    using six by blast
  show "\<forall>g\<in>set (groups (phase2_analyse now msgs)).
             keep_msg_id g = msg_id (fst (last (sort_key snd (with_dates msgs))))"
    using six by blast
  show "groups (phase2_analyse now msgs) \<noteq> []"
    using six by blast
  show "msg_id (fst (last (sort_key snd (with_dates msgs))))
             \<notin> dedup_ids_of (groups (phase2_analyse now msgs))"
    using six by blast
  {
    assume nd: "\<forall>m\<in>set msgs. \<not> spec_decay_hit now m"
    show "archive_ids (phase2_analyse now msgs) = dedup_ids_of (groups (phase2_analyse now msgs))"
      using six nd by blast
    show "keep_ids (phase2_analyse now msgs)
                 = {msg_id (fst (last (sort_key snd (with_dates msgs))))}"
      using six nd by blast
  }
qed

text \<open>The claim as first stated fails: of six reports sent every six hours, the second to
  the sixth form a run of five within 24 hours of its start with one 4-word prefix, yet its
  key is already recorded by the run of the first five, so the fifth report, which is not
  the newest of that run, is not marked and stays in the keep-id set.\<close>

lemma staggered_report:
  "phase2_analyse now_2000m ex_staggered =
     \<lparr>details = empty_time_decay,
      groups = [\<lparr>group_key = ''cron@example.org|daily report'', sender = ''cron@example.org'',
                 pattern = ''daily report'', total_in_burst = 5, keep_msg_id = ''35'',
                 archive_msg_ids = [''31'', ''32'', ''33'', ''34'']\<rparr>],
      flagged_for_review_12mo = 0,
      archive_ids = {''31'', ''32'', ''33'', ''34''}, keep_ids = {''35'', ''36''}\<rparr>"
  by code_simp

lemma staggered_window:
  "map msg_id ex_staggered = [''31'', ''32'', ''33'', ''34'', ''35'', ''36'']
   \<and> sort_key snd (with_dates ex_staggered) = with_dates ex_staggered
   \<and> map (\<lambda>a. msg_id (fst a))
        (with_dates ex_staggered ! 1 # burst_from (with_dates ex_staggered ! 1) (drop 2 (with_dates ex_staggered)))
       = [''32'', ''33'', ''34'', ''35'', ''36'']
   \<and> list_all (\<lambda>a. snd a - snd (with_dates ex_staggered ! 1) \<le> day_us
                   \<and> first_n_words (normalise_subject (subject (fst a))) 4
                     = first_n_words (normalise_subject (subject (fst (with_dates ex_staggered ! 1)))) 4)
        (drop 1 (with_dates ex_staggered))"
  by code_simp

theorem later_run_not_marked:
  "map msg_id ex_staggered = [''31'', ''32'', ''33'', ''34'', ''35'', ''36'']
   \<and> sort_key snd (with_dates ex_staggered) = with_dates ex_staggered
   \<and> map (\<lambda>a. msg_id (fst a))
        (with_dates ex_staggered ! 1 # burst_from (with_dates ex_staggered ! 1) (drop 2 (with_dates ex_staggered)))
       = [''32'', ''33'', ''34'', ''35'', ''36'']
   \<and> list_all (\<lambda>a. snd a - snd (with_dates ex_staggered ! 1) \<le> day_us
                   \<and> first_n_words (normalise_subject (subject (fst a))) 4
                     = first_n_words (normalise_subject (subject (fst (with_dates ex_staggered ! 1)))) 4)
        (drop 1 (with_dates ex_staggered))
   \<and> length (groups (phase2_analyse now_2000m ex_staggered)) = 1
   \<and> ''35'' \<notin> archive_ids (phase2_analyse now_2000m ex_staggered)
   \<and> ''35'' \<in> keep_ids (phase2_analyse now_2000m ex_staggered)
   \<and> ''36'' \<in> keep_ids (phase2_analyse now_2000m ex_staggered)"
  using staggered_window by (simp add: staggered_report)

text \<open>Witness for C4: six build reports within two hours, given out of date order.\<close>

lemma six_example_facts:
  "length ex_six = 6
   \<and> (\<forall>m\<in>set ex_six. from_email m = ''ci@example.org'' \<and> category m \<noteq> Some ''archive'' \<and> date m \<noteq> None)
   \<and> (\<forall>m\<in>set ex_six. \<forall>m'\<in>set ex_six.
          normalise_subject (subject m) = normalise_subject (subject m'))
   \<and> (\<forall>m\<in>set ex_six. \<forall>m'\<in>set ex_six. the (date m') - the (date m) \<le> 2 * 3600000000)
   \<and> distinct (map msg_id ex_six)
   \<and> (\<forall>m\<in>set ex_six. \<not> spec_decay_hit now_200m m)"
  by code_simp

lemma six_example_sorted:
  "map (\<lambda>a. msg_id (fst a)) (sort_key snd (with_dates ex_six))
     = [''41'', ''42'', ''43'', ''44'', ''45'', ''46'']"
  by code_simp

theorem burst_dedup_witness:
  "length ex_six = 6
   \<and> distinct (map msg_id ex_six)
   \<and> map (\<lambda>a. msg_id (fst a)) (sort_key snd (with_dates ex_six))
       = [''41'', ''42'', ''43'', ''44'', ''45'', ''46'']
   \<and> dedup_ids_of (groups (phase2_analyse now_200m ex_six)) = {''41'', ''42'', ''43'', ''44'', ''45''}
   \<and> card (dedup_ids_of (groups (phase2_analyse now_200m ex_six))) = 5
   \<and> archive_ids (phase2_analyse now_200m ex_six) = {''41'', ''42'', ''43'', ''44'', ''45''}
   \<and> keep_ids (phase2_analyse now_200m ex_six) = {''46''}
   \<and> distinct (map group_key (groups (phase2_analyse now_200m ex_six)))"
proof -
  note f = six_example_facts
  from burst_dedup [of now_200m ex_six "''ci@example.org''"] f
  have d: "distinct (map group_key (groups (phase2_analyse now_200m ex_six)))"
    and i: "dedup_ids_of (groups (phase2_analyse now_200m ex_six)) =
           set (map (\<lambda>a. msg_id (fst a)) (butlast (sort_key snd (with_dates ex_six))))"
    and c: "card (dedup_ids_of (groups (phase2_analyse now_200m ex_six))) = 5"
    and a: "archive_ids (phase2_analyse now_200m ex_six) = dedup_ids_of (groups (phase2_analyse now_200m ex_six))"
    and k: "keep_ids (phase2_analyse now_200m ex_six)
                 = {msg_id (fst (last (sort_key snd (with_dates ex_six))))}"
    by blast+
  have b: "set (map (\<lambda>a. msg_id (fst a)) (butlast (sort_key snd (with_dates ex_six))))
         = {''41'', ''42'', ''43'', ''44'', ''45''}"
    by code_simp
  have l: "msg_id (fst (last (sort_key snd (with_dates ex_six)))) = ''46''"
    by code_simp
  have I: "dedup_ids_of (groups (phase2_analyse now_200m ex_six)) = {''41'', ''42'', ''43'', ''44'', ''45''}"
    by (simp only: i b)
  have A: "archive_ids (phase2_analyse now_200m ex_six) = {''41'', ''42'', ''43'', ''44'', ''45''}"
    by (simp only: a I)
  have K: "keep_ids (phase2_analyse now_200m ex_six) = {''46''}"
    by (simp only: k l)
  from f have f1: "length ex_six = 6" and f5: "distinct (map msg_id ex_six)" by blast+
  show ?thesis
    by (intro conjI) (rule f1 f5 six_example_sorted I c A K d)+
qed

subsection \<open>Never-expire categories and the burst deduplication\<close>

lemma urgent_burst_report:
  "phase2_analyse now_10d ex_urgent_burst =
     \<lparr>details = empty_time_decay,
      groups = [\<lparr>group_key = ''ops@example.org|alert: disk full'', sender = ''ops@example.org'',
                 pattern = ''alert: disk full'', total_in_burst = 5, keep_msg_id = ''25'',
                 archive_msg_ids = [''21'', ''22'', ''23'', ''24'']\<rparr>],
      flagged_for_review_12mo = 0,
      archive_ids = {''21'', ''22'', ''23'', ''24''}, keep_ids = {''25''}\<rparr>"
  by code_simp

lemma urgent_burst_first:
  "hd ex_urgent_burst \<in> set ex_urgent_burst
   \<and> category_or_empty (hd ex_urgent_burst) \<in> KEEP_CATEGORIES
   \<and> msg_id (hd ex_urgent_burst) = ''21''
   \<and> is_notification_like (hd ex_urgent_burst)
   \<and> days_old (date (hd ex_urgent_burst)) now_10d = Some 10"
  by code_simp

lemma td_ids_of_empty: "td_ids_of empty_time_decay = {}"
  by (simp add: td_ids_of_eq decay_refs_empty)

text \<open>
  Claim C10. Burst deduplication does not consult the category: for some input, a message
  whose category is in the never-expire set is a member, not the newest, of a recorded
  burst, and its id is in the final archive-id set and not in the keep-id set. In the same
  input the message is notification-like and ten days old, and the time-decay stage, where
  the never-expire categories are skipped, contributes no id.
\<close>

theorem dedup_ignores_never_expire:
  "\<exists>now msgs m g.
     m \<in> set msgs
     \<and> category_or_empty m \<in> KEEP_CATEGORIES
     \<and> g \<in> set (groups (phase2_analyse now msgs))
     \<and> msg_id m \<in> set (archive_msg_ids g)
     \<and> keep_msg_id g \<noteq> msg_id m
     \<and> msg_id m \<in> archive_ids (phase2_analyse now msgs)
     \<and> msg_id m \<notin> keep_ids (phase2_analyse now msgs)
     \<and> is_notification_like m
     \<and> days_old (date m) now = Some 10
     \<and> td_ids_of (details (phase2_analyse now msgs)) = {}"
proof -
  let ?g = "\<lparr>group_key = ''ops@example.org|alert: disk full'', sender = ''ops@example.org'',
             pattern = ''alert: disk full'', total_in_burst = 5, keep_msg_id = ''25'',
             archive_msg_ids = [''21'', ''22'', ''23'', ''24'']\<rparr>"
  have "hd ex_urgent_burst \<in> set ex_urgent_burst
     \<and> category_or_empty (hd ex_urgent_burst) \<in> KEEP_CATEGORIES
     \<and> ?g \<in> set (groups (phase2_analyse now_10d ex_urgent_burst))
     \<and> msg_id (hd ex_urgent_burst) \<in> set (archive_msg_ids ?g)
     \<and> keep_msg_id ?g \<noteq> msg_id (hd ex_urgent_burst)
     \<and> msg_id (hd ex_urgent_burst) \<in> archive_ids (phase2_analyse now_10d ex_urgent_burst)
     \<and> msg_id (hd ex_urgent_burst) \<notin> keep_ids (phase2_analyse now_10d ex_urgent_burst)
     \<and> is_notification_like (hd ex_urgent_burst)
     \<and> days_old (date (hd ex_urgent_burst)) now_10d = Some 10
     \<and> td_ids_of (details (phase2_analyse now_10d ex_urgent_burst)) = {}"
    using urgent_burst_first by (simp add: urgent_burst_report td_ids_of_empty)
  then show ?thesis by blast
qed


section \<open>Properties of the checkpoint store\<close>

lemma writes_keep_target:
  "s \<in> set (writes fs tmp sofar pieces) \<Longrightarrow> tmp \<noteq> path \<Longrightarrow> s path = fs path"
  by (induction pieces arbitrary: sofar) auto

lemma writes_last:
  "last (fs(tmp \<mapsto> sofar) # writes fs tmp sofar pieces) tmp = Some (sofar @ concat pieces)"
  by (induction pieces arbitrary: sofar) auto

lemma save_states_target:
  assumes tmp: "with_suffix path ''.tmp'' = Some tmp" and ne: "tmp \<noteq> path"
    and s: "s \<in> set (save_checkpoint_states fs path pieces)"
  shows "s path = fs path \<or> s path = Some (concat pieces)"
proof -
  have l: "last (fs(tmp \<mapsto> []) # writes fs tmp [] pieces) tmp = Some (concat pieces)"
    using writes_last [of fs tmp "[]" pieces] by simp
  from s tmp consider "s = fs(tmp \<mapsto> [])" | "s \<in> set (writes fs tmp [] pieces)"
    | "s = ((last (fs(tmp \<mapsto> []) # writes fs tmp [] pieces))(tmp := None))
             (path := last (fs(tmp \<mapsto> []) # writes fs tmp [] pieces) tmp)"
    by (auto simp: save_checkpoint_states_def Let_def)
  then show ?thesis
  proof cases
    case 1
    then show ?thesis using ne by simp
  next
    case 2
    then show ?thesis using writes_keep_target [OF _ ne] by blast
  next
    case 3
    then show ?thesis using l by simp
  qed
qed

lemma save_final_target:
  assumes tmp: "with_suffix path ''.tmp'' = Some tmp"
  shows "save_checkpoint fs path pieces path = Some (concat pieces)"
proof -
  have l: "last (fs(tmp \<mapsto> []) # writes fs tmp [] pieces) tmp = Some (concat pieces)"
    using writes_last [of fs tmp "[]" pieces] by simp
  show ?thesis using tmp l
    by (simp add: save_checkpoint_def save_checkpoint_states_def Let_def)
qed

text \<open>
  Claim C3. For every checkpoint save whose temporary path differs from the target (the
  target's suffix is not \<^verbatim>\<open>.tmp\<close>; the pipeline's checkpoints end in \<^verbatim>\<open>.json\<close>): in
  every state the files go through during the save, the checkpoint file holds what it held
  before the save (or is absent as before) or the complete new snapshot, so a reader, also
  one that comes after a crash at any step, loads the previous snapshot or the new one and
  never a partly written one; after the save the file holds the complete new snapshot.
\<close>

theorem checkpoint_never_partial:
  assumes "with_suffix path ''.tmp'' = Some tmp" and "tmp \<noteq> path"
  shows "(\<forall>s\<in>set (save_checkpoint_states fs path pieces).
            s path = fs path \<or> s path = Some (concat pieces))
       \<and> (\<forall>s\<in>set (save_checkpoint_states fs path pieces).
            load_checkpoint parse s path = load_checkpoint parse fs path
            \<or> load_checkpoint parse s path = parse (concat pieces))
       \<and> save_checkpoint fs path pieces path = Some (concat pieces)
       \<and> load_checkpoint parse (save_checkpoint fs path pieces) path = parse (concat pieces)"
proof (intro conjI ballI)
  fix s assume s: "s \<in> set (save_checkpoint_states fs path pieces)"
  show t: "s path = fs path \<or> s path = Some (concat pieces)"
    using save_states_target [OF assms s] .
  then show "load_checkpoint parse s path = load_checkpoint parse fs path
            \<or> load_checkpoint parse s path = parse (concat pieces)"
    by (auto simp: load_checkpoint_def)
next
  show f: "save_checkpoint fs path pieces path = Some (concat pieces)"
    by (rule save_final_target [OF assms(1)])
  then show "load_checkpoint parse (save_checkpoint fs path pieces) path = parse (concat pieces)"
    by (simp add: load_checkpoint_def)
qed

text \<open>Witness for C3: the metadata checkpoint of an account, replaced by a snapshot that is
  written in two pieces.\<close>

lemma ex_path_tmp:
  "with_suffix ex_path ''.tmp'' = Some ''triage_output/me/checkpoint_metadata.tmp''
   \<and> ''triage_output/me/checkpoint_metadata.tmp'' \<noteq> ex_path"
  by code_simp

theorem checkpoint_never_partial_witness:
  "with_suffix ex_path ''.tmp'' = Some ''triage_output/me/checkpoint_metadata.tmp''
   \<and> ''triage_output/me/checkpoint_metadata.tmp'' \<noteq> ex_path
   \<and> length (save_checkpoint_states ex_files ex_path ex_pieces) = 4
   \<and> list_all (\<lambda>s. s ex_path = Some ''[1]'' \<or> s ex_path = Some ''[1, 2]'')
        (save_checkpoint_states ex_files ex_path ex_pieces)
   \<and> save_checkpoint ex_files ex_path ex_pieces ex_path = Some ''[1, 2]''"
proof -
  note t = ex_path_tmp
  have c: "concat ex_pieces = ''[1, 2]''" by (simp add: ex_pieces_def)
  have o: "ex_files ex_path = Some ''[1]''" by (simp add: ex_files_def)
  have n: "length (save_checkpoint_states ex_files ex_path ex_pieces) = 4"
    using t by (simp add: save_checkpoint_states_def ex_pieces_def Let_def)
  from t have t1: "with_suffix ex_path ''.tmp'' = Some ''triage_output/me/checkpoint_metadata.tmp''"
    and t2: "''triage_output/me/checkpoint_metadata.tmp'' \<noteq> ex_path" by blast+
  note inst = checkpoint_never_partial [OF t1 t2, of ex_files ex_pieces]
  from inst have a: "list_all (\<lambda>s. s ex_path = Some ''[1]'' \<or> s ex_path = Some ''[1, 2]'')
        (save_checkpoint_states ex_files ex_path ex_pieces)"
    unfolding c o list_all_iff by blast
  from inst have b: "save_checkpoint ex_files ex_path ex_pieces ex_path = Some ''[1, 2]''"
    unfolding c by blast
  show ?thesis by (intro conjI) (rule t1 t2 n a b)+
qed

section \<open>Properties of the checkpointed fetch\<close>

subsection \<open>The metadata fetch\<close>











subsection \<open>The body fetch\<close>













subsection \<open>Resuming from a checkpoint\<close>





section \<open>Properties of the archiver\<close>

subsection \<open>Dry run and idempotence\<close>

lemma scan_inbox_reads_only: "c \<in> set (snd (scan_inbox mail matches)) \<Longrightarrow> \<not> mutates c"
  by (auto simp: scan_inbox_def Let_def split: if_splits)

lemma archive_matched_dry_run:
  "archive_matched mail scan True bs account =
     \<lparr>returned = 0,
      notices = (if fst scan = [] then [NoMessages] else [DryRun (length (fst scan))]),
      issued = snd scan\<rparr>"
  by (simp add: archive_matched_def Let_def)

text \<open>
  Claim C5, as amended. For every target set, the archiver called with the dry-run flag sends
  only the commands of the scan (the read-only selection of the inbox, the UID search and
  the UID fetches): no flag is set, nothing is copied, nothing is expunged and no folder is
  created. It returns 0; the number of matched identifiers is printed, not returned. The
  same holds for the archiver of phase 2.
\<close>

theorem dry_run_no_mutation:
  "issued (archive_messages mail senders True bs account)
     = snd (scan_inbox_uids_by_sender mail (set (map lower senders)))
   \<and> (\<forall>c\<in>set (issued (archive_messages mail senders True bs account)). \<not> mutates c)
   \<and> returned (archive_messages mail senders True bs account) = 0
   \<and> notices (archive_messages mail senders True bs account)
       = (if fst (scan_inbox_uids_by_sender mail (set (map lower senders))) = [] then [NoMessages]
          else [DryRun (length (fst (scan_inbox_uids_by_sender mail (set (map lower senders)))))])
   \<and> (\<forall>c\<in>set (issued (phase2_archive mail targets all_msgs True account)). \<not> mutates c)
   \<and> returned (phase2_archive mail targets all_msgs True account) = 0
   \<and> notices (phase2_archive mail targets all_msgs True account)
       = (if targets = {} \<or> fst (scan_inbox_uids_for_phase2 mail targets all_msgs) = []
          then [NoMessages]
          else [DryRun (length (fst (scan_inbox_uids_for_phase2 mail targets all_msgs)))])"
proof (intro conjI ballI)
  show "issued (archive_messages mail senders True bs account)
     = snd (scan_inbox_uids_by_sender mail (set (map lower senders)))"
    by (simp add: archive_messages_def archive_matched_dry_run)
  show "returned (archive_messages mail senders True bs account) = 0"
    by (simp add: archive_messages_def archive_matched_dry_run)
  show "notices (archive_messages mail senders True bs account)
       = (if fst (scan_inbox_uids_by_sender mail (set (map lower senders))) = [] then [NoMessages]
          else [DryRun (length (fst (scan_inbox_uids_by_sender mail (set (map lower senders)))))])"
    by (simp add: archive_messages_def archive_matched_dry_run)
  show "returned (phase2_archive mail targets all_msgs True account) = 0"
    by (simp add: phase2_archive_def archive_matched_dry_run)
  show "notices (phase2_archive mail targets all_msgs True account)
       = (if targets = {} \<or> fst (scan_inbox_uids_for_phase2 mail targets all_msgs) = []
          then [NoMessages]
          else [DryRun (length (fst (scan_inbox_uids_for_phase2 mail targets all_msgs)))])"
    by (simp add: phase2_archive_def archive_matched_dry_run)
next
  fix c assume "c \<in> set (issued (archive_messages mail senders True bs account))"
  then show "\<not> mutates c"
    using scan_inbox_reads_only
    by (simp add: archive_messages_def archive_matched_dry_run scan_inbox_uids_by_sender_def)
next
  fix c assume "c \<in> set (issued (phase2_archive mail targets all_msgs True account))"
  then show "\<not> mutates c"
    using scan_inbox_reads_only
    by (auto simp: phase2_archive_def archive_matched_dry_run scan_inbox_uids_for_phase2_def
             split: if_splits)
qed

text \<open>The claim as first stated fails: with one matched message the dry run returns 0, not
  the number of matched identifiers.\<close>

lemma dry_run_example:
  "fst (scan_inbox_uids_by_sender (view_server ex_box (Some 1000)) (set (map lower [''Spam@shop.example''])))
     = [''902'']
   \<and> archive_messages (view_server ex_box (Some 1000)) [''Spam@shop.example''] True 200 None
     = \<lparr>returned = 0, notices = [DryRun 1],
        issued = [Select ''INBOX'' True, UidSearch, UidFetch [''901'', ''902'', ''903'']]\<rparr>"
  by code_simp

theorem dry_run_returns_zero:
  "length (fst (scan_inbox_uids_by_sender (view_server ex_box (Some 1000))
                  (set (map lower [''Spam@shop.example''])))) = 1
   \<and> returned (archive_messages (view_server ex_box (Some 1000)) [''Spam@shop.example''] True 200 None) = 0
   \<and> returned (archive_messages (view_server ex_box (Some 1000)) [''Spam@shop.example''] True 200 None)
       \<noteq> length (fst (scan_inbox_uids_by_sender (view_server ex_box (Some 1000))
                          (set (map lower [''Spam@shop.example'']))))"
  using dry_run_example by simp

text \<open>Witness for C5: a dry run over an inbox of three messages, one of them from a
  targeted sender.\<close>

theorem dry_run_no_mutation_witness:
  "list_all (\<lambda>c. \<not> mutates c)
     (issued (archive_messages (view_server ex_box (Some 1000)) [''Spam@shop.example''] True 200 None))
   \<and> issued (archive_messages (view_server ex_box (Some 1000)) [''Spam@shop.example''] True 200 None)
       = [Select ''INBOX'' True, UidSearch, UidFetch [''901'', ''902'', ''903'']]
   \<and> returned (archive_messages (view_server ex_box (Some 1000)) [''Spam@shop.example''] True 200 None) = 0
   \<and> notices (archive_messages (view_server ex_box (Some 1000)) [''Spam@shop.example''] True 200 None)
       = [DryRun 1]"
proof -
  note inst = dry_run_no_mutation [of "view_server ex_box (Some 1000)" "[''Spam@shop.example'']" 200 None]
  from inst have a: "list_all (\<lambda>c. \<not> mutates c)
     (issued (archive_messages (view_server ex_box (Some 1000)) [''Spam@shop.example''] True 200 None))"
    unfolding list_all_iff by blast
  from inst have r: "returned (archive_messages (view_server ex_box (Some 1000)) [''Spam@shop.example''] True 200 None) = 0"
    by blast
  from dry_run_example have
    i: "issued (archive_messages (view_server ex_box (Some 1000)) [''Spam@shop.example''] True 200 None)
       = [Select ''INBOX'' True, UidSearch, UidFetch [''901'', ''902'', ''903'']]"
    and n: "notices (archive_messages (view_server ex_box (Some 1000)) [''Spam@shop.example''] True 200 None)
       = [DryRun 1]"
    by simp_all
  show ?thesis by (intro conjI) (rule a i r n)+
qed

lemma scan_items_none:
  assumes "\<forall>item\<in>set items. case item of NotTuple \<Rightarrow> True
             | Tuple line raw \<Rightarrow> (case raw of None \<Rightarrow> True | Some msg \<Rightarrow> \<not> matches msg)"
  shows "scan_items matches items = []"
  using assms
proof (induction items)
  case Nil
  then show ?case by simp
next
  case (Cons item items)
  then have "scan_item matches item = None"
    by (cases item) (auto simp: scan_item_def split: option.splits)
  then show ?case using Cons by simp
qed

text \<open>
  Claim C9. When no message the inbox still holds comes from a sender of the target set,
  the resolution matches no identifier and the archiver, dry run or not, returns 0: it
  prints that there is nothing to archive and sends only the commands of the scan, none of
  which changes the mailbox; there is no error path on the way.
\<close>

theorem archive_idempotent:
  assumes "\<forall>b\<in>set (batches 500 (uid_search mail)). \<forall>item\<in>set (uid_fetch mail b).
             case item of NotTuple \<Rightarrow> True
             | Tuple line raw \<Rightarrow>
                 (case raw of None \<Rightarrow> True
                  | Some msg \<Rightarrow> get_sender_email (hdr_from msg) \<notin> set (map lower senders))"
  shows "fst (scan_inbox_uids_by_sender mail (set (map lower senders))) = []
       \<and> archive_messages mail senders dry_run bs account
           = \<lparr>returned = 0, notices = [NoMessages],
              issued = snd (scan_inbox_uids_by_sender mail (set (map lower senders)))\<rparr>
       \<and> (\<forall>c\<in>set (issued (archive_messages mail senders dry_run bs account)). \<not> mutates c)"
proof -
  have each: "scan_items (\<lambda>msg. get_sender_email (hdr_from msg) \<in> set (map lower senders))
                (uid_fetch mail b) = []"
    if "b \<in> set (batches 500 (uid_search mail))" for b
    using assms that by (intro scan_items_none) blast
  have none: "fst (scan_inbox_uids_by_sender mail (set (map lower senders))) = []"
    using each by (simp add: scan_inbox_uids_by_sender_def scan_inbox_def Let_def)
  have out: "archive_messages mail senders dry_run bs account
           = \<lparr>returned = 0, notices = [NoMessages],
              issued = snd (scan_inbox_uids_by_sender mail (set (map lower senders)))\<rparr>"
    using none by (simp add: archive_messages_def archive_matched_def Let_def)
  have "\<forall>c\<in>set (issued (archive_messages mail senders dry_run bs account)). \<not> mutates c"
    unfolding out using scan_inbox_reads_only by (simp add: scan_inbox_uids_by_sender_def)
  with none out show ?thesis by blast
qed

text \<open>Witness for C9: the inbox after the one message of the targeted sender was archived.\<close>

lemma idempotent_example:
  "(\<forall>b\<in>set (batches 500 (uid_search (view_server ex_box_later (Some 1000)))).
      \<forall>item\<in>set (uid_fetch (view_server ex_box_later (Some 1000)) b).
        case item of NotTuple \<Rightarrow> True
        | Tuple line raw \<Rightarrow>
            (case raw of None \<Rightarrow> True
             | Some msg \<Rightarrow> get_sender_email (hdr_from msg) \<notin> set (map lower [''Spam@shop.example''])))
   \<and> snd (scan_inbox_uids_by_sender (view_server ex_box_later (Some 1000))
            (set (map lower [''Spam@shop.example''])))
       = [Select ''INBOX'' True, UidSearch, UidFetch [''901'', ''903'']]
   \<and> fst (scan_inbox_uids_by_sender (view_server ex_box (Some 1000))
            (set (map lower [''Spam@shop.example'']))) = [''902'']"
  by code_simp

theorem archive_idempotent_witness:
  "fst (scan_inbox_uids_by_sender (view_server ex_box (Some 1000))
            (set (map lower [''Spam@shop.example'']))) = [''902'']
   \<and> fst (scan_inbox_uids_by_sender (view_server ex_box_later (Some 1000))
            (set (map lower [''Spam@shop.example'']))) = []
   \<and> archive_messages (view_server ex_box_later (Some 1000)) [''Spam@shop.example''] False 200 None
       = \<lparr>returned = 0, notices = [NoMessages],
          issued = [Select ''INBOX'' True, UidSearch, UidFetch [''901'', ''903'']]\<rparr>"
proof -
  from idempotent_example have
    h: "\<forall>b\<in>set (batches 500 (uid_search (view_server ex_box_later (Some 1000)))).
      \<forall>item\<in>set (uid_fetch (view_server ex_box_later (Some 1000)) b).
        case item of NotTuple \<Rightarrow> True
        | Tuple line raw \<Rightarrow>
            (case raw of None \<Rightarrow> True
             | Some msg \<Rightarrow> get_sender_email (hdr_from msg) \<notin> set (map lower [''Spam@shop.example'']))"
    and s: "snd (scan_inbox_uids_by_sender (view_server ex_box_later (Some 1000))
            (set (map lower [''Spam@shop.example''])))
       = [Select ''INBOX'' True, UidSearch, UidFetch [''901'', ''903'']]"
    and b: "fst (scan_inbox_uids_by_sender (view_server ex_box (Some 1000))
            (set (map lower [''Spam@shop.example'']))) = [''902'']"
    by blast+
  note inst = archive_idempotent [OF h, of False 200 None]
  from inst have a: "fst (scan_inbox_uids_by_sender (view_server ex_box_later (Some 1000))
            (set (map lower [''Spam@shop.example'']))) = []" by blast
  from inst have o: "archive_messages (view_server ex_box_later (Some 1000)) [''Spam@shop.example''] False 200 None
       = \<lparr>returned = 0, notices = [NoMessages],
          issued = [Select ''INBOX'' True, UidSearch, UidFetch [''901'', ''903'']]\<rparr>"
    unfolding s by blast
  show ?thesis by (intro conjI) (rule b a o)+
qed

subsection \<open>The safety check\<close>











section \<open>Which identifiers are stored and which are used\<close>

lemma parse_items_ids:
  "r \<in> set (parse_items items) \<Longrightarrow>
   \<exists>line msg. Tuple line (Some msg) \<in> set items \<and> fm_msg_id r = before '' '' line"
proof (induction items)
  case Nil
  then show ?case by simp
next
  case (Cons item items)
  show ?case
  proof (cases "parse_item item")
    case None
    then show ?thesis using Cons by auto
  next
    case (Some m)
    then obtain line msg where item: "item = Tuple line (Some msg)" and m: "fm_msg_id m = before '' '' line"
      by (auto simp: parse_item_def split: fetch_item.splits option.splits)
    from Cons.prems Some have "r = m \<or> r \<in> set (parse_items items)" by simp
    then show ?thesis
    proof
      assume "r = m"
      with item m show ?thesis by auto
    next
      assume "r \<in> set (parse_items items)"
      from Cons.IH [OF this] show ?thesis by auto
    qed
  qed
qed

lemma metadata_loop_ids:
  "cp \<in> set (metadata_loop fetch ms bs) \<Longrightarrow> r \<in> set cp \<Longrightarrow>
   r \<in> set ms \<or> (\<exists>b line msg. Tuple line (Some msg) \<in> set (fetch b) \<and> fm_msg_id r = before '' '' line)"
proof (induction bs arbitrary: ms)
  case Nil
  then show ?case by simp
next
  case (Cons b bs)
  let ?ms' = "ms @ parse_items (fetch b)"
  have step: "r \<in> set ?ms' \<Longrightarrow> ?case"
    using parse_items_ids [of r "fetch b"] by auto
  from Cons.prems(1) have "cp = ?ms' \<or> cp \<in> set (metadata_loop fetch ?ms' bs)"
    by (simp add: Let_def)
  then show ?case
  proof
    assume "cp = ?ms'"
    with Cons.prems(2) step show ?thesis by simp
  next
    assume "cp \<in> set (metadata_loop fetch ?ms' bs)"
    from Cons.IH [OF this Cons.prems(2)] step show ?thesis by blast
  qed
qed

lemma scan_items_uids:
  "u \<in> set (scan_items matches items) \<Longrightarrow>
   \<exists>line raw. Tuple line raw \<in> set items \<and> uid_of line = Some u"
proof (induction items)
  case Nil
  then show ?case by simp
next
  case (Cons item items)
  show ?case
  proof (cases "scan_item matches item")
    case None
    then show ?thesis using Cons by auto
  next
    case (Some v)
    then obtain line raw where item: "item = Tuple line raw" and v: "uid_of line = Some v"
      by (auto simp: scan_item_def split: fetch_item.splits option.splits if_splits)
    from Cons.prems Some have "u = v \<or> u \<in> set (scan_items matches items)" by simp
    then show ?thesis
    proof
      assume "u = v"
      with item v show ?thesis by auto
    next
      assume "u \<in> set (scan_items matches items)"
      from Cons.IH [OF this] show ?thesis by auto
    qed
  qed
qed

lemma scan_inbox_uids:
  "u \<in> set (fst (scan_inbox mail matches)) \<Longrightarrow>
   \<exists>b line raw. Tuple line raw \<in> set (uid_fetch mail b) \<and> uid_of line = Some u"
proof -
  assume "u \<in> set (fst (scan_inbox mail matches))"
  then obtain b where "u \<in> set (scan_items matches (uid_fetch mail b))"
    by (auto simp: scan_inbox_def Let_def split: if_splits)
  from scan_items_uids [OF this] show ?thesis by blast
qed

lemma scan_inbox_no_flag:
  "c \<in> set (snd (scan_inbox mail matches)) \<Longrightarrow> c \<noteq> UidStore us \<and> c \<noteq> UidCopy us f"
  by (auto simp: scan_inbox_def Let_def split: if_splits)

lemma batches_subset: "b \<in> set (batches n xs) \<Longrightarrow> set b \<subseteq> set xs"
proof (induction n xs rule: batches.induct)
  case (1 n xs)
  show ?case
  proof (cases "n = 0 \<or> xs = []")
    case True
    then show ?thesis using "1.prems" by (subst (asm) batches.simps) simp
  next
    case False
    with "1.prems" have "b = take n xs \<or> b \<in> set (batches n (drop n xs))"
      by (subst (asm) batches.simps) simp
    then show ?thesis
    proof
      assume "b = take n xs"
      then show ?thesis by (simp add: set_take_subset)
    next
      assume "b \<in> set (batches n (drop n xs))"
      with "1.IH" False have "set b \<subseteq> set (drop n xs)" by simp
      then show ?thesis using set_drop_subset [of n xs] by blast
    qed
  qed
qed

lemma flag_batches_cmds:
  "c \<in> set (snd (flag_batches mail gmail folder archived bs)) \<Longrightarrow>
   \<exists>b\<in>set bs. c = UidStore b \<or> c = UidCopy b folder"
  by (induction bs arbitrary: archived) (auto simp: Let_def case_prod_unfold split: if_splits)

lemma archive_matched_uids:
  assumes c: "c \<in> set (issued (archive_matched mail scan dry_run bs account))"
    and k: "c = UidStore us \<or> c = UidCopy us f"
  shows "c \<in> set (snd scan) \<or> set us \<subseteq> set (fst scan)"
proof -
  have fl: "set us \<subseteq> set (fst scan)"
    if "c \<in> set (snd (flag_batches mail g folder 0 (batches bs (fst scan))))" for g folder
  proof -
    from flag_batches_cmds [OF that] obtain b where
      b: "b \<in> set (batches bs (fst scan))" and cb: "c = UidStore b \<or> c = UidCopy b folder"
      by blast
    from cb k have "us = b" by auto
    with batches_subset [OF b] show ?thesis by simp
  qed
  from c k show ?thesis
    using fl
    by (auto simp: archive_matched_def Let_def case_prod_unfold verify_archive_safety_def
          ensure_archive_folder_def split: if_splits option.splits)
qed

end
